theory Spec2Isabelle
  imports Main "HOL-Library.Char_ord" "HOL-Library.List_Lexorder"
begin

section \<open>JavaScript values\<close>

text \<open>
  The values a script may resolve to and the JSON bodies the client receives.
  Numbers are modelled as integers; strings are byte lists.
\<close>

datatype jsval =
    JUndefined
  | JNull
  | JBool bool
  | JNum int
  | JStr string
  | JArr "jsval list"
  | JObj "(string \<times> jsval) list"

text \<open>JavaScript truthiness (\<open>if (v)\<close>, \<open>!v\<close>, \<open>a && b\<close>).\<close>

fun truthy :: "jsval \<Rightarrow> bool" where
  "truthy JUndefined = False"
| "truthy JNull = False"
| "truthy (JBool b) = b"
| "truthy (JNum n) = (n \<noteq> 0)"
| "truthy (JStr s) = (s \<noteq> [])"
| "truthy (JArr xs) = True"
| "truthy (JObj kvs) = True"

text \<open>\<open>typeof v === 'object'\<close>: objects, arrays and \<open>null\<close>.\<close>

fun typeof_object :: "jsval \<Rightarrow> bool" where
  "typeof_object JNull = True"
| "typeof_object (JArr xs) = True"
| "typeof_object (JObj kvs) = True"
| "typeof_object v = False"

fun typeof_string :: "jsval \<Rightarrow> bool" where
  "typeof_string (JStr s) = True"
| "typeof_string v = False"

fun isArray :: "jsval \<Rightarrow> bool" where
  "isArray (JArr xs) = True"
| "isArray v = False"

text \<open>
  Property read \<open>v.k\<close> on a value that is not \<open>undefined\<close> or \<open>null\<close>:
  own properties of an object, \<open>undefined\<close> otherwise. The reads of the modelled
  code are guarded by a truthiness test of the receiver, except \<open>error.message\<close> in
  the run coordinator, where the throw is modelled by \<open>message\<close> below.
\<close>

fun getprop :: "jsval \<Rightarrow> string \<Rightarrow> jsval" where
  "getprop (JObj kvs) k = (case map_of kvs k of None \<Rightarrow> JUndefined | Some v \<Rightarrow> v)"
| "getprop v k = JUndefined"


section \<open>Persisted layout (src/db/database.cjs)\<close>

text \<open>
  Three tables, each with \<open>id TEXT PRIMARY KEY\<close>. A table is the list of its rows
  in insertion order; all columns used by the modelled code are \<open>TEXT\<close>.
\<close>

record automation_row =
  automation_id :: string
  automation_name :: string
  automation_description :: string
  automation_script :: string
  automation_status :: string
  automation_createdAt :: string
  automation_updatedAt :: string

record log_row =
  log_id :: string
  log_automationId :: string
  log_automationName :: string
  log_status :: string
  log_output :: string
  log_timestamp :: string

record output_row =
  output_id :: string
  output_automationId :: string
  output_name :: string
  output_type :: string
  output_data :: string
  output_timestamp :: string

record database =
  automations :: "automation_row list"
  logs :: "log_row list"
  outputs :: "output_row list"


section \<open>Errors\<close>

text \<open>
  What the modelled JavaScript throws: a database constraint failure, a \<open>TypeError\<close>
  or \<open>RangeError\<close> of the runtime, a \<open>SyntaxError\<close> of the \<open>Function\<close>
  constructor, and whatever value the script itself throws or rejects with; an
  \<open>Error\<close> object thrown by the script is an object with the property \<open>message\<close>.
\<close>

datatype error =
    SqliteError string
  | TypeError string
  | SyntaxError string
  | RangeError string
  | Thrown jsval

text \<open>
  The read \<open>error.message\<close> in a \<open>catch\<close>: the message of an error object; for a
  value the script threw, its \<open>message\<close> property, which is \<open>undefined\<close> for a
  value without one. For \<open>throw undefined\<close>, \<open>throw null\<close> or
  \<open>Promise.reject()\<close> the read itself throws a \<open>TypeError\<close>.
\<close>

fun message :: "error \<Rightarrow> error + jsval" where
  "message (SqliteError m) = Inr (JStr m)"
| "message (TypeError m) = Inr (JStr m)"
| "message (SyntaxError m) = Inr (JStr m)"
| "message (RangeError m) = Inr (JStr m)"
| "message (Thrown v) =
     (if v = JUndefined \<or> v = JNull
      then Inl (TypeError ''Cannot read properties of undefined'')
      else Inr (getprop v ''message''))"


section \<open>The Date object (ECMAScript, Date Objects)\<close>

text \<open>
  Time values are milliseconds since the epoch, in UTC. The definitions follow the
  abstract operations of the language specification by name. \<open>YearFromTime\<close> is
  specified as the largest year whose first day is not after the time; it is computed
  from an estimate by the mean length of a year and corrected by at most one year
  (\<open>YearFromTime_largest\<close> below).
\<close>

definition msPerDay :: int where
  "msPerDay = 86400000"

definition Day :: "int \<Rightarrow> int" where
  "Day t = t div msPerDay"

definition TimeWithinDay :: "int \<Rightarrow> int" where
  "TimeWithinDay t = t mod msPerDay"

definition DaysInYear :: "int \<Rightarrow> int" where
  "DaysInYear y =
     (if y mod 4 \<noteq> 0 then 365
      else if y mod 100 \<noteq> 0 then 366
      else if y mod 400 \<noteq> 0 then 365
      else 366)"

definition DayFromYear :: "int \<Rightarrow> int" where
  "DayFromYear y =
     365 * (y - 1970) + (y - 1969) div 4 - (y - 1901) div 100 + (y - 1601) div 400"

definition TimeFromYear :: "int \<Rightarrow> int" where
  "TimeFromYear y = msPerDay * DayFromYear y"

definition YearFromTime :: "int \<Rightarrow> int" where
  "YearFromTime t =
     (let y = 1970 + (400 * Day t) div 146097
      in if DayFromYear (y + 1) \<le> Day t then y + 1
         else if DayFromYear y \<le> Day t then y
         else y - 1)"

definition InLeapYear :: "int \<Rightarrow> int" where
  "InLeapYear t = (if DaysInYear (YearFromTime t) = 365 then 0 else 1)"

definition DayWithinYear :: "int \<Rightarrow> int" where
  "DayWithinYear t = Day t - DayFromYear (YearFromTime t)"

definition MonthFromTime :: "int \<Rightarrow> int" where
  "MonthFromTime t =
     (let d = DayWithinYear t; l = InLeapYear t
      in if d < 31 then 0
         else if d < 59 + l then 1
         else if d < 90 + l then 2
         else if d < 120 + l then 3
         else if d < 151 + l then 4
         else if d < 181 + l then 5
         else if d < 212 + l then 6
         else if d < 243 + l then 7
         else if d < 273 + l then 8
         else if d < 304 + l then 9
         else if d < 334 + l then 10
         else 11)"

definition DateFromTime :: "int \<Rightarrow> int" where
  "DateFromTime t =
     (let d = DayWithinYear t; l = InLeapYear t; m = MonthFromTime t
      in if m = 0 then d + 1
         else if m = 1 then d - 30
         else if m = 2 then d - 58 - l
         else if m = 3 then d - 89 - l
         else if m = 4 then d - 119 - l
         else if m = 5 then d - 150 - l
         else if m = 6 then d - 180 - l
         else if m = 7 then d - 211 - l
         else if m = 8 then d - 242 - l
         else if m = 9 then d - 272 - l
         else if m = 10 then d - 303 - l
         else d - 333 - l)"

definition HourFromTime :: "int \<Rightarrow> int" where
  "HourFromTime t = (t div 3600000) mod 24"

definition MinFromTime :: "int \<Rightarrow> int" where
  "MinFromTime t = (t div 60000) mod 60"

definition SecFromTime :: "int \<Rightarrow> int" where
  "SecFromTime t = (t div 1000) mod 60"

definition msFromTime :: "int \<Rightarrow> int" where
  "msFromTime t = t mod 1000"

text \<open>The day within the year on which month \<open>m\<close> (0 to 11) starts; \<open>l\<close> is 1 in a leap year.\<close>

definition month_start :: "int \<Rightarrow> int \<Rightarrow> int" where
  "month_start m l =
     (if m = 0 then 0
      else if m = 1 then 31
      else if m = 2 then 59 + l
      else if m = 3 then 90 + l
      else if m = 4 then 120 + l
      else if m = 5 then 151 + l
      else if m = 6 then 181 + l
      else if m = 7 then 212 + l
      else if m = 8 then 243 + l
      else if m = 9 then 273 + l
      else if m = 10 then 304 + l
      else 334 + l)"

text \<open>
  \<open>MakeDay(year, month, date)\<close>: the day number of the first of the month (the day of
  the time value the specification asks to find, \<open>MakeDay_first_of_month\<close> below),
  plus \<open>date - 1\<close>.
\<close>

definition MakeDay :: "int \<Rightarrow> int \<Rightarrow> int \<Rightarrow> int" where
  "MakeDay year month date =
     (let ym = year + month div 12;
          mn = month mod 12
      in DayFromYear ym + month_start mn (if DaysInYear ym = 365 then 0 else 1) + date - 1)"

definition MakeDate :: "int \<Rightarrow> int \<Rightarrow> int" where
  "MakeDate day time = day * msPerDay + time"

text \<open>\<open>TimeClip\<close>: \<open>None\<close> is \<open>NaN\<close>, the time value of an invalid date.\<close>

definition TimeClip :: "int \<Rightarrow> int option" where
  "TimeClip time = (if \<bar>time\<bar> > 8640000000000000 then None else Some time)"

text \<open>
  The clock and the time zone of the process: the time value of \<open>new Date()\<close> and
  the implementation-defined offset \<open>LocalTZA(t, isUTC)\<close> of local time, in
  milliseconds.
\<close>

record clock =
  clock_now :: int
  LocalTZA :: "int \<Rightarrow> bool \<Rightarrow> int"

definition LocalTime :: "clock \<Rightarrow> int \<Rightarrow> int" where
  "LocalTime rt t = t + LocalTZA rt t True"

definition UTC :: "clock \<Rightarrow> int \<Rightarrow> int" where
  "UTC rt t = t - LocalTZA rt t False"

text \<open>
  The numbers a retention window is modelled for: a whole number of days (what the
  settings form stores, 1 to 30), or \<open>NaN\<close>, which is what \<open>getDate() - days\<close> yields
  for a \<open>days\<close> that does not convert to a number; an infinite window behaves as
  \<open>NaN\<close> does. On whole numbers the double arithmetic of \<open>getDate() - days\<close>,
  \<open>MakeDay\<close>, \<open>MakeDate\<close> and \<open>UTC\<close> is exact as long as the results stay below
  \<open>2^53\<close>, and a result that is not is beyond the range \<open>TimeClip\<close> accepts both
  before and after rounding, so integer arithmetic gives the same time value.
\<close>

datatype number = Whole int | NaN

fun minus_number :: "int \<Rightarrow> number \<Rightarrow> number" where
  "minus_number a (Whole b) = Whole (a - b)"
| "minus_number a NaN = NaN"

text \<open>\<open>getDate()\<close> and \<open>setDate(date)\<close> of a date object whose time value is \<open>tv\<close>.\<close>

definition Date_getDate :: "clock \<Rightarrow> int \<Rightarrow> int" where
  "Date_getDate rt tv = DateFromTime (LocalTime rt tv)"

definition Date_setDate :: "clock \<Rightarrow> int \<Rightarrow> number \<Rightarrow> int option" where
  "Date_setDate rt tv date =
     (case date of
        NaN \<Rightarrow> None
      | Whole dt \<Rightarrow>
          (let t = LocalTime rt tv;
               newDate = MakeDate (MakeDay (YearFromTime t) (MonthFromTime t) dt) (TimeWithinDay t)
           in TimeClip (UTC rt newDate)))"

definition digit :: "int \<Rightarrow> char" where
  "digit n = ''0123456789'' ! nat n"

text \<open>The last \<open>k\<close> decimal digits of \<open>n\<close>, with leading zeros.\<close>

fun pad :: "nat \<Rightarrow> int \<Rightarrow> string" where
  "pad 0 n = []"
| "pad (Suc k) n = pad k (n div 10) @ [digit (n mod 10)]"

text \<open>
  The date-time string format: four digits for the years 0 to 9999, otherwise a sign
  and six digits.
\<close>

definition iso_year :: "int \<Rightarrow> string" where
  "iso_year y =
     (if 0 \<le> y \<and> y \<le> 9999 then pad 4 y
      else (if y < 0 then ''-'' else ''+'') @ pad 6 \<bar>y\<bar>)"

definition ISOString :: "int \<Rightarrow> string" where
  "ISOString t =
     iso_year (YearFromTime t) @ ''-'' @ pad 2 (MonthFromTime t + 1) @ ''-''
       @ pad 2 (DateFromTime t) @ ''T'' @ pad 2 (HourFromTime t) @ '':''
       @ pad 2 (MinFromTime t) @ '':'' @ pad 2 (SecFromTime t) @ ''.''
       @ pad 3 (msFromTime t) @ ''Z''"

text \<open>\<open>toISOString()\<close>: a \<open>RangeError\<close> for an invalid date.\<close>

definition Date_toISOString :: "int option \<Rightarrow> error + string" where
  "Date_toISOString tv =
     (case tv of
        None \<Rightarrow> Inl (RangeError ''Invalid time value'')
      | Some t \<Rightarrow> Inr (ISOString t))"


section \<open>OutputModel (src/db/models/output.cjs)\<close>

text \<open>
  \<open>ORDER BY timestamp DESC\<close>: the \<open>timestamp\<close> column is \<open>TEXT\<close>, compared
  bytewise, which is the lexicographic order on \<open>string\<close>. Rows with equal
  timestamps keep their table order (a stable insertion sort).
\<close>

fun insert_desc :: "output_row \<Rightarrow> output_row list \<Rightarrow> output_row list" where
  "insert_desc x [] = [x]"
| "insert_desc x (y # ys) =
     (if output_timestamp y \<le> output_timestamp x then x # y # ys
      else y # insert_desc x ys)"

definition order_by_timestamp_desc :: "output_row list \<Rightarrow> output_row list" where
  "order_by_timestamp_desc rows = foldr insert_desc rows []"

text \<open>
  \<open>LIMIT ? OFFSET ?\<close> as SQLite evaluates it: a negative \<open>OFFSET\<close> counts as
  zero and a negative \<open>LIMIT\<close> means no upper bound.
\<close>

definition sql_limit_offset :: "int \<Rightarrow> int \<Rightarrow> 'a list \<Rightarrow> 'a list" where
  "sql_limit_offset lim off rows =
     (let rest = drop (nat off) rows
      in if lim < 0 then rest else take (nat lim) rest)"

record page_result =
  res_files :: "output_row list"
  res_total :: int
  res_page :: int
  res_limit :: int

definition OutputModel_getAll :: "int \<Rightarrow> int \<Rightarrow> int \<Rightarrow> database \<Rightarrow> page_result" where
  "OutputModel_getAll page limit skip db =
     (let offset = ((page - 1) * limit) + skip;
          totalCount = int (length (outputs db));
          results = sql_limit_offset limit offset (order_by_timestamp_desc (outputs db))
      in \<lparr> res_files = results, res_total = totalCount, res_page = page, res_limit = limit \<rparr>)"

definition OutputModel_getById :: "string \<Rightarrow> database \<Rightarrow> output_row option" where
  "OutputModel_getById i db = find (\<lambda>r. output_id r = i) (outputs db)"

text \<open>
  \<open>OutputModel.delete\<close>: \<open>null\<close> when the id is absent, otherwise
  \<open>DELETE FROM outputs WHERE id = ?\<close> and \<open>{ id }\<close>.
\<close>

definition OutputModel_delete :: "string \<Rightarrow> database \<Rightarrow> string option \<times> database" where
  "OutputModel_delete i db =
     (case OutputModel_getById i db of
        None \<Rightarrow> (None, db)
      | Some r \<Rightarrow> (Some i, db\<lparr> outputs := filter (\<lambda>r. output_id r \<noteq> i) (outputs db) \<rparr>))"

text \<open>A JavaScript \<open>Set\<close> of ids, in insertion order.\<close>

definition set_add :: "string list \<Rightarrow> string \<Rightarrow> string list" where
  "set_add s x = (if x \<in> set s then s else s @ [x])"

record cleanup_result =
  deleted :: nat
  oldOutputsRemoved :: nat
  nonScreenshotsRemoved :: nat

text \<open>
  \<open>cleanupOldOutputs(days)\<close>. Lines 123-125 compute the cutoff text:
  \<open>new Date()\<close>, \<open>setDate(getDate() - days)\<close>, \<open>toISOString()\<close>, which throws
  for an invalid date before anything is read or deleted. The loop body counts every id
  of the set, whatever \<open>OutputModel.delete\<close> returns.
\<close>

definition cleanup_step :: "database \<times> nat \<Rightarrow> string \<Rightarrow> database \<times> nat" where
  "cleanup_step acc i = (snd (OutputModel_delete i (fst acc)), snd acc + 1)"

definition OutputModel_cleanupOldOutputs ::
  "clock \<Rightarrow> number \<Rightarrow> database \<Rightarrow> error + (cleanup_result \<times> database)" where
  "OutputModel_cleanupOldOutputs rt days db =
     (let cutoffDate = clock_now rt;
          cutoffDate' = Date_setDate rt cutoffDate (minus_number (Date_getDate rt cutoffDate) days)
      in case Date_toISOString cutoffDate' of
           Inl err \<Rightarrow> Inl err
         | Inr cutoffTimestamp \<Rightarrow>
             (let oldOutputsToDelete =
                    filter (\<lambda>r. output_timestamp r < cutoffTimestamp) (outputs db);
                  nonScreenshotOutputs =
                    filter (\<lambda>r. output_type r \<noteq> ''screenshot'') (outputs db);
                  outputsToDelete = oldOutputsToDelete @ nonScreenshotOutputs;
                  outputIdsToDelete = foldl set_add [] (map output_id outputsToDelete);
                  final = foldl cleanup_step (db, 0) outputIdsToDelete
              in Inr (\<lparr> deleted = snd final,
                        oldOutputsRemoved = length oldOutputsToDelete,
                        nonScreenshotsRemoved = length nonScreenshotOutputs \<rparr>,
                      fst final)))"

text \<open>The retention predicate of the sweep: older than the cutoff, or not a screenshot.\<close>

definition swept :: "string \<Rightarrow> output_row \<Rightarrow> bool" where
  "swept cutoff r = (output_timestamp r < cutoff \<or> output_type r \<noteq> ''screenshot'')"


section \<open>Calendar facts\<close>

lemma div_bounds:
  assumes "0 < (k::int)"
  shows "k * (n div k) \<le> n \<and> n < k * (n div k) + k"
proof -
  have "k * (n div k) + n mod k = n" by (rule mult_div_mod_eq)
  moreover have "0 \<le> n mod k" using assms by (rule pos_mod_sign)
  moreover have "n mod k < k" using assms by (rule pos_mod_bound)
  ultimately show ?thesis by linarith
qed

lemma DayFromYear_bounds_aux:
  fixes x a b c :: int
  assumes "4 * a \<le> x + 1" "x + 1 < 4 * a + 4"
      and "100 * b \<le> x + 69" "x + 69 < 100 * b + 100"
      and "400 * c \<le> x + 369" "x + 369 < 400 * c + 400"
  shows "146097 * x - 506 \<le> 146000 * x + 400 * a - 400 * b + 400 * c \<and>
         146000 * x + 400 * a - 400 * b + 400 * c \<le> 146097 * x + 589"
proof
  show "146097 * x - 506 \<le> 146000 * x + 400 * a - 400 * b + 400 * c"
    using assms by linarith
  show "146000 * x + 400 * a - 400 * b + 400 * c \<le> 146097 * x + 589"
    using assms by linarith
qed

text \<open>The first day of a year, against the mean length of a year (365.2425 days).\<close>

lemma DayFromYear_bounds:
  "146097 * y - 287811596 \<le> 400 * DayFromYear y \<and>
   400 * DayFromYear y \<le> 146097 * y - 287810501"
proof -
  define x where "x = y - 1970"
  define a where "a = (y - 1969) div 4"
  define b where "b = (y - 1901) div 100"
  define c where "c = (y - 1601) div 400"
  have a: "4 * a \<le> x + 1 \<and> x + 1 < 4 * a + 4"
    using div_bounds [of 4 "y - 1969"] by (simp add: a_def x_def)
  have b: "100 * b \<le> x + 69 \<and> x + 69 < 100 * b + 100"
    using div_bounds [of 100 "y - 1901"] by (simp add: b_def x_def)
  have c: "400 * c \<le> x + 369 \<and> x + 369 < 400 * c + 400"
    using div_bounds [of 400 "y - 1601"] by (simp add: c_def x_def)
  have d: "400 * DayFromYear y = 146000 * x + 400 * a - 400 * b + 400 * c"
    by (simp add: DayFromYear_def x_def a_def b_def c_def)
  have y: "y = x + 1970"
    by (simp add: x_def)
  have "146097 * x - 506 \<le> 400 * DayFromYear y \<and> 400 * DayFromYear y \<le> 146097 * x + 589"
    unfolding d using DayFromYear_bounds_aux [of a x b c] a b c by blast
  then show ?thesis
    unfolding y by simp
qed

lemma YearFromTime_aux:
  fixes d y lo hi :: int
  assumes "146097 * y - 287811090 \<le> 400 * d" "400 * d < 146097 * y - 287664993"
      and "400 * lo \<le> 146097 * y - 287956598"
      and "146097 * y - 287519402 \<le> 400 * hi"
  shows "lo \<le> d \<and> d < hi"
proof
  show "lo \<le> d" using assms by linarith
  show "d < hi" using assms by linarith
qed

lemma YearFromTime_bounds:
  "DayFromYear (YearFromTime t) \<le> Day t \<and> Day t < DayFromYear (YearFromTime t + 1)"
proof -
  define d where "d = Day t"
  define x where "x = (400 * d) div 146097"
  define y where "y = 1970 + x"
  have x: "x = y - 1970"
    by (simp add: y_def)
  have "146097 * x \<le> 400 * d \<and> 400 * d < 146097 * x + 146097"
    using div_bounds [of 146097 "400 * d"] by (simp add: x_def)
  then have e: "146097 * y - 287811090 \<le> 400 * d \<and> 400 * d < 146097 * y - 287664993"
    unfolding x by simp
  have l: "400 * DayFromYear (y - 1) \<le> 146097 * y - 287956598"
    using DayFromYear_bounds [of "y - 1"] by simp
  have h: "146097 * y - 287519402 \<le> 400 * DayFromYear (y + 2)"
    using DayFromYear_bounds [of "y + 2"] by simp
  have lh: "DayFromYear (y - 1) \<le> d \<and> d < DayFromYear (y + 2)"
    using YearFromTime_aux [of y d "DayFromYear (y - 1)" "DayFromYear (y + 2)"] e l h by blast
  have Y: "YearFromTime t =
             (if DayFromYear (y + 1) \<le> d then y + 1 else if DayFromYear y \<le> d then y else y - 1)"
    by (simp add: YearFromTime_def Let_def d_def y_def x_def)
  have two: "y + 1 + 1 = y + 2" by simp
  show ?thesis
    unfolding Y d_def [symmetric] using lh by (simp add: two)
qed


lemma DayFromYear_less:
  assumes "y < z"
  shows "DayFromYear y < DayFromYear z"
  using DayFromYear_bounds [of y] DayFromYear_bounds [of z] assms by linarith

lemma DayFromYear_mono: "y \<le> z \<Longrightarrow> DayFromYear y \<le> DayFromYear z"
  using DayFromYear_less [of y z] by (cases "y = z") simp_all

lemma div_succ:
  assumes k: "0 < (k::int)"
  shows "(n + 1) div k = n div k + (if k dvd n + 1 then 1 else 0)"
proof -
  define q where "q = n div k"
  define r where "r = n mod k"
  have n: "n = k * q + r"
    by (simp add: q_def r_def)
  have r: "0 \<le> r" "r < k"
    using k by (simp_all add: r_def)
  show ?thesis
  proof (cases "r + 1 = k")
    case True
    have e: "n + 1 = k * (q + 1) + 0"
      using n True by (simp add: distrib_left)
    have "(n + 1) div k = q + 1"
      using e _ k by (rule int_div_pos_eq) simp
    moreover have "k dvd n + 1"
      unfolding e by simp
    ultimately show ?thesis
      by (simp add: q_def)
  next
    case False
    have e: "n + 1 = k * q + (r + 1)"
      using n by simp
    have b: "0 \<le> r + 1" "r + 1 < k"
      using r False by simp_all
    have d: "(n + 1) div k = q"
      using e b by (rule int_div_pos_eq)
    have m: "(n + 1) mod k = r + 1"
      using e b by (rule int_mod_pos_eq)
    have "\<not> k dvd n + 1"
      using m r by (simp add: dvd_eq_mod_eq_0)
    with d show ?thesis
      by (simp add: q_def)
  qed
qed

lemma dvd_shift:
  assumes "(k::int) dvd c"
  shows "k dvd y - c \<longleftrightarrow> k dvd y"
  using assms by (simp add: dvd_diff_left_iff)

lemma DaysInYear_dvd:
  "DaysInYear y = 365 + (if 4 dvd y then 1 else 0) - (if 100 dvd y then 1 else 0)
                    + (if 400 dvd y then 1 else 0)"
proof -
  have d1: "400 dvd y \<Longrightarrow> 100 dvd y"
    by (rule dvd_trans [of 100 400 y]) simp_all
  have d2: "100 dvd y \<Longrightarrow> 4 dvd y"
    by (rule dvd_trans [of 4 100 y]) simp_all
  show ?thesis
    unfolding DaysInYear_def mod_eq_0_iff_dvd using d1 d2 by auto
qed

lemma DayFromYear_step: "DayFromYear (y + 1) = DayFromYear y + DaysInYear y"
proof -
  define A where "A = (y - 1969) div 4"
  define B where "B = (y - 1901) div 100"
  define C where "C = (y - 1601) div 400"
  have a: "(y + 1 - 1969) div 4 = A + (if 4 dvd y then 1 else 0)"
    unfolding A_def using div_succ [of 4 "y - 1969"] dvd_shift [of 4 1968 y] by simp
  have b: "(y + 1 - 1901) div 100 = B + (if 100 dvd y then 1 else 0)"
    unfolding B_def using div_succ [of 100 "y - 1901"] dvd_shift [of 100 1900 y] by simp
  have c: "(y + 1 - 1601) div 400 = C + (if 400 dvd y then 1 else 0)"
    unfolding C_def using div_succ [of 400 "y - 1601"] dvd_shift [of 400 1600 y] by simp
  have s: "DayFromYear (y + 1) =
             365 * (y + 1 - 1970) + (A + (if 4 dvd y then 1 else 0))
               - (B + (if 100 dvd y then 1 else 0)) + (C + (if 400 dvd y then 1 else 0))"
    by (simp only: DayFromYear_def a b c)
  have t: "DayFromYear y = 365 * (y - 1970) + A - B + C"
    by (simp only: DayFromYear_def A_def B_def C_def)
  show ?thesis
    unfolding s t DaysInYear_dvd by simp
qed

lemma Day_le_iff: "n \<le> Day t \<longleftrightarrow> msPerDay * n \<le> t"
proof -
  have k: "0 < msPerDay" by (simp add: msPerDay_def)
  have b: "msPerDay * (t div msPerDay) \<le> t \<and> t < msPerDay * (t div msPerDay) + msPerDay"
    using k by (rule div_bounds)
  show ?thesis
  proof
    assume "n \<le> Day t"
    then have "msPerDay * n \<le> msPerDay * (t div msPerDay)"
      using k by (simp add: Day_def)
    with b show "msPerDay * n \<le> t" by linarith
  next
    assume a: "msPerDay * n \<le> t"
    show "n \<le> Day t"
    proof (rule ccontr)
      assume "\<not> n \<le> Day t"
      then have "t div msPerDay + 1 \<le> n" by (simp add: Day_def)
      then have "msPerDay * (t div msPerDay + 1) \<le> msPerDay * n"
        using k by simp
      then have "msPerDay * (t div msPerDay) + msPerDay \<le> msPerDay * n"
        by (simp add: distrib_left)
      with a b show False by linarith
    qed
  qed
qed

lemma YearFromTime_largest:
  "TimeFromYear (YearFromTime t) \<le> t \<and> (\<forall>y. TimeFromYear y \<le> t \<longrightarrow> y \<le> YearFromTime t)"
proof -
  have 1: "TimeFromYear (YearFromTime t) \<le> t"
    using YearFromTime_bounds [of t] by (simp add: Day_le_iff TimeFromYear_def)
  have 2: "y \<le> YearFromTime t" if "TimeFromYear y \<le> t" for y
  proof (rule ccontr)
    assume "\<not> y \<le> YearFromTime t"
    then have "YearFromTime t + 1 \<le> y" by simp
    then have "DayFromYear (YearFromTime t + 1) \<le> DayFromYear y"
      by (rule DayFromYear_mono)
    moreover have "DayFromYear y \<le> Day t"
      using that by (simp add: Day_le_iff TimeFromYear_def)
    ultimately show False using YearFromTime_bounds [of t] by linarith
  qed
  from 1 2 show ?thesis by blast
qed


lemma MonthFromTime_range: "0 \<le> MonthFromTime t \<and> MonthFromTime t \<le> 11"
  by (simp add: MonthFromTime_def Let_def)

lemma DateFromTime_month_start:
  "DateFromTime t = DayWithinYear t + 1 - month_start (MonthFromTime t) (InLeapYear t)"
  using MonthFromTime_range [of t]
  by (simp add: DateFromTime_def month_start_def Let_def)

lemma MakeDay_same_month:
  "MakeDay (YearFromTime t) (MonthFromTime t) dt = Day t - DateFromTime t + dt"
proof -
  have d: "MonthFromTime t div 12 = 0"
    using MonthFromTime_range [of t] by simp
  have m: "MonthFromTime t mod 12 = MonthFromTime t"
    using MonthFromTime_range [of t] by simp
  show ?thesis
    unfolding MakeDay_def Let_def d m DateFromTime_month_start
    by (simp add: InLeapYear_def DayWithinYear_def)
qed

lemma Day_TimeWithinDay: "Day t * msPerDay + TimeWithinDay t = t"
  by (simp add: Day_def TimeWithinDay_def)

text \<open>
  \<open>d.setDate(d.getDate() - D)\<close> moves the local time back by \<open>D\<close> days of 24 hours.
\<close>

lemma setDate_getDate:
  "Date_setDate rt tv (minus_number (Date_getDate rt tv) (Whole D)) =
     TimeClip (UTC rt (LocalTime rt tv - D * msPerDay))"
proof -
  define t where "t = LocalTime rt tv"
  have "MakeDate (MakeDay (YearFromTime t) (MonthFromTime t) (DateFromTime t - D)) (TimeWithinDay t) =
          (Day t - D) * msPerDay + TimeWithinDay t"
    by (simp add: MakeDate_def MakeDay_same_month)
  also have "\<dots> = t - D * msPerDay"
    using Day_TimeWithinDay [of t] by (simp add: left_diff_distrib)
  finally show ?thesis
    by (simp add: Date_setDate_def Date_getDate_def Let_def t_def)
qed


lemma YearFromTime_unique:
  assumes "DayFromYear y \<le> Day t" and "Day t < DayFromYear (y + 1)"
  shows "YearFromTime t = y"
proof (rule ccontr)
  assume n: "YearFromTime t \<noteq> y"
  show False
  proof (cases "YearFromTime t < y")
    case True
    then have "DayFromYear (YearFromTime t + 1) \<le> DayFromYear y"
      by (intro DayFromYear_mono) simp
    with assms(1) YearFromTime_bounds [of t] show False by linarith
  next
    case False
    with n have "DayFromYear (y + 1) \<le> DayFromYear (YearFromTime t)"
      by (intro DayFromYear_mono) simp
    with assms(2) YearFromTime_bounds [of t] show False by linarith
  qed
qed

lemma Day_mult: "Day (msPerDay * n) = n"
  by (simp add: Day_def msPerDay_def)

lemma upto_11: "[0..11::int] = [0, 1, 2, 3, 4, 5, 6, 7, 8, 9, 10, 11]"
  by code_simp

lemma month_cases:
  assumes "0 \<le> (m::int)" "m \<le> 11"
  shows "m \<in> {0, 1, 2, 3, 4, 5, 6, 7, 8, 9, 10, 11}"
proof -
  have "m \<in> set [0..11]"
    using assms by simp
  then show ?thesis
    unfolding upto_11 by simp
qed

lemma month_start_less:
  assumes "0 \<le> m" "m \<le> 11"
  shows "0 \<le> month_start m (if DaysInYear y = 365 then 0 else 1) \<and>
         month_start m (if DaysInYear y = 365 then 0 else 1) < DaysInYear y"
proof -
  have "DaysInYear y = 365 \<or> DaysInYear y = 366"
    by (simp add: DaysInYear_def)
  with month_cases [OF assms] show ?thesis
    by (elim insertE emptyE disjE) (simp_all add: month_start_def)
qed

text \<open>
  The day number \<open>MakeDay\<close> starts from is the first of the month: the time value at
  the start of that day has the given year and month, and date 1.
\<close>

lemma MakeDay_first_of_month:
  assumes m: "0 \<le> month" "month \<le> 11"
  shows "YearFromTime (msPerDay * MakeDay year month 1) = year \<and>
         MonthFromTime (msPerDay * MakeDay year month 1) = month \<and>
         DateFromTime (msPerDay * MakeDay year month 1) = 1"
proof -
  define l :: int where "l = (if DaysInYear year = 365 then 0 else 1)"
  define t where "t = msPerDay * MakeDay year month 1"
  have d: "month div 12 = 0" and r: "month mod 12 = month"
    using m by simp_all
  have md: "MakeDay year month 1 = DayFromYear year + month_start month l"
    by (simp add: MakeDay_def Let_def d r l_def)
  have day: "Day t = DayFromYear year + month_start month l"
    unfolding t_def Day_mult md ..
  have b: "0 \<le> month_start month l \<and> month_start month l < DaysInYear year"
    unfolding l_def using m by (rule month_start_less)
  have y: "YearFromTime t = year"
  proof (rule YearFromTime_unique)
    show "DayFromYear year \<le> Day t"
      using b by (simp add: day)
    show "Day t < DayFromYear (year + 1)"
      using b by (simp add: day DayFromYear_step)
  qed
  have leap: "InLeapYear t = l"
    by (simp add: InLeapYear_def y l_def)
  have w: "DayWithinYear t = month_start month l"
    by (simp add: DayWithinYear_def y day)
  have l01: "l = 0 \<or> l = 1"
    by (auto simp: l_def)
  have mo: "MonthFromTime t = month"
    unfolding MonthFromTime_def Let_def w leap
    using month_cases [OF m] l01 by (elim insertE emptyE disjE) (simp_all add: month_start_def)
  have "DateFromTime t = DayWithinYear t + 1 - month_start (MonthFromTime t) (InLeapYear t)"
    by (rule DateFromTime_month_start)
  then have da: "DateFromTime t = 1"
    by (simp add: w mo leap)
  show ?thesis
    using y mo da unfolding t_def by simp
qed


section \<open>The order of ISO date-time strings\<close>

lemma less_field:
  fixes a b x y :: string
  assumes "length a = length b"
  shows "a @ x < b @ y \<longleftrightarrow> a < b \<or> (a = b \<and> x < y)"
  using assms by (induction a b rule: list_induct2) auto

lemma length_pad: "length (pad k n) = k"
  by (induction k arbitrary: n) simp_all

lemma of_char_digit:
  assumes "0 \<le> n" "n \<le> 9"
  shows "(of_char (digit n) :: nat) = 48 + nat n"
proof -
  have "n \<in> set [0..9]"
    using assms by simp
  also have "[0..9::int] = [0, 1, 2, 3, 4, 5, 6, 7, 8, 9]"
    by code_simp
  finally have "n \<in> {0, 1, 2, 3, 4, 5, 6, 7, 8, 9}"
    by simp
  then show ?thesis
    by (elim insertE emptyE) (simp_all add: digit_def)
qed

lemma digit_less_iff:
  assumes "0 \<le> a" "a \<le> 9" "0 \<le> b" "b \<le> 9"
  shows "digit a < digit b \<longleftrightarrow> a < b"
  using assms by (auto simp: less_char_def of_char_digit)

lemma digit_eq_iff:
  assumes "0 \<le> a" "a \<le> 9" "0 \<le> b" "b \<le> 9"
  shows "digit a = digit b \<longleftrightarrow> a = b"
proof
  assume "digit a = digit b"
  then have "(of_char (digit a) :: nat) = of_char (digit b)"
    by simp
  then show "a = b"
    using assms by (simp add: of_char_digit)
qed simp

lemma div_less_mult:
  assumes "0 < (k::int)" and "p < q"
  shows "k * p + k \<le> k * q"
proof -
  have "p + 1 \<le> q" using assms(2) by simp
  then have "k * (p + 1) \<le> k * q"
    using assms(1) by (simp add: mult_le_cancel_left_pos)
  then show ?thesis by (simp add: distrib_left)
qed

lemma divmod_less_iff:
  assumes "0 < (k::int)"
  shows "a < b \<longleftrightarrow> a div k < b div k \<or> (a div k = b div k \<and> a mod k < b mod k)"
proof -
  define p where "p = a div k"
  define q where "q = b div k"
  define r where "r = a mod k"
  define u where "u = b mod k"
  have a: "a = k * p + r" and b: "b = k * q + u"
    by (simp_all add: p_def q_def r_def u_def)
  have ra: "0 \<le> r" "r < k" and rb: "0 \<le> u" "u < k"
    using assms by (simp_all add: r_def u_def)
  have "a < b \<longleftrightarrow> p < q \<or> (p = q \<and> r < u)"
  proof (cases "p < q")
    case True
    from div_less_mult [OF assms True] a b ra rb True show ?thesis
      by linarith
  next
    case False
    show ?thesis
    proof (cases "p = q")
      case True
      with a b show ?thesis
        by simp
    next
      case ne: False
      with False have "q < p" by simp
      from div_less_mult [OF assms this] a b ra rb False ne show ?thesis
        by linarith
    qed
  qed
  then show ?thesis
    by (simp only: p_def q_def r_def u_def)
qed

lemma pad_less_iff:
  assumes "0 \<le> a" "a < 10 ^ k" "0 \<le> b" "b < 10 ^ k"
  shows "(pad k a < pad k b \<longleftrightarrow> a < b) \<and> (pad k a = pad k b \<longleftrightarrow> a = b)"
  using assms
proof (induction k arbitrary: a b)
  case 0
  then show ?case by simp
next
  case (Suc k)
  have d: "0 \<le> n div 10 \<and> n div 10 < 10 ^ k" if "0 \<le> n" "n < 10 ^ Suc k" for n :: int
  proof -
    define P :: int where "P = 10 ^ k"
    have "10 * (n div 10) \<le> n \<and> n < 10 * (n div 10) + 10"
      by (rule div_bounds) simp
    moreover have "n < 10 * P"
      using that(2) by (simp add: P_def)
    ultimately have "0 \<le> n div 10 \<and> n div 10 < P"
      using that(1) by linarith
    then show ?thesis by (simp add: P_def)
  qed
  have da: "0 \<le> a div 10" "a div 10 < 10 ^ k" and db: "0 \<le> b div 10" "b div 10 < 10 ^ k"
    using d [OF Suc.prems(1,2)] d [OF Suc.prems(3,4)] by simp_all
  note IH = Suc.IH [OF da db]
  have ma: "0 \<le> a mod 10" "a mod 10 \<le> 9" and mb: "0 \<le> b mod 10" "b mod 10 \<le> 9"
    using div_bounds [of 10 "a mod 10"] by simp_all
  have l: "length (pad k (a div 10)) = length (pad k (b div 10))"
    by (simp add: length_pad)
  have lt: "pad (Suc k) a < pad (Suc k) b \<longleftrightarrow>
              a div 10 < b div 10 \<or> (a div 10 = b div 10 \<and> a mod 10 < b mod 10)"
    using IH by (simp add: less_field [OF l] digit_less_iff [OF ma mb])
  have eq: "pad (Suc k) a = pad (Suc k) b \<longleftrightarrow> a div 10 = b div 10 \<and> a mod 10 = b mod 10"
    using IH by (simp add: digit_eq_iff [OF ma mb])
  have e2: "a div 10 = b div 10 \<and> a mod 10 = b mod 10 \<longleftrightarrow> a = b"
    by (metis div_mult_mod_eq)
  show ?case
    unfolding lt eq e2 using divmod_less_iff [of 10 a b] by simp
qed


lemma divmod_eq_iff:
  "(a::int) = b \<longleftrightarrow> a div k = b div k \<and> a mod k = b mod k"
  by (metis div_mult_mod_eq)

lemma Day_hours: "Day t = (t div 3600000) div 24"
  unfolding Day_def msPerDay_def using zdiv_zmult2_eq [of 24 t 3600000] by simp

lemma hours_minutes: "(t::int) div 3600000 = (t div 60000) div 60"
  using zdiv_zmult2_eq [of 60 t 60000] by simp

lemma minutes_seconds: "(t::int) div 60000 = (t div 1000) div 60"
  using zdiv_zmult2_eq [of 60 t 1000] by simp

text \<open>Within one day, the order of time values is the order of hour, minute, second, millisecond.\<close>

lemma time_of_day_less_iff:
  assumes "Day s = Day t"
  shows "s < t \<longleftrightarrow>
           HourFromTime s < HourFromTime t \<or>
           (HourFromTime s = HourFromTime t \<and>
            (MinFromTime s < MinFromTime t \<or>
             (MinFromTime s = MinFromTime t \<and>
              (SecFromTime s < SecFromTime t \<or>
               (SecFromTime s = SecFromTime t \<and> msFromTime s < msFromTime t)))))"
proof -
  define ss where "ss x = x div 1000" for x :: int
  define mm where "mm x = x div 60000" for x :: int
  define hh where "hh x = x div 3600000" for x :: int
  have l1: "s < t \<longleftrightarrow> ss s < ss t \<or> (ss s = ss t \<and> msFromTime s < msFromTime t)"
    unfolding ss_def msFromTime_def by (rule divmod_less_iff) simp
  have l2: "ss s < ss t \<longleftrightarrow> mm s < mm t \<or> (mm s = mm t \<and> SecFromTime s < SecFromTime t)"
    unfolding ss_def mm_def SecFromTime_def minutes_seconds by (rule divmod_less_iff) simp
  have e2: "ss s = ss t \<longleftrightarrow> mm s = mm t \<and> SecFromTime s = SecFromTime t"
    unfolding ss_def mm_def SecFromTime_def minutes_seconds by (rule divmod_eq_iff)
  have l3: "mm s < mm t \<longleftrightarrow> hh s < hh t \<or> (hh s = hh t \<and> MinFromTime s < MinFromTime t)"
    unfolding mm_def hh_def MinFromTime_def hours_minutes by (rule divmod_less_iff) simp
  have e3: "mm s = mm t \<longleftrightarrow> hh s = hh t \<and> MinFromTime s = MinFromTime t"
    unfolding mm_def hh_def MinFromTime_def hours_minutes by (rule divmod_eq_iff)
  have d: "hh s div 24 = hh t div 24"
    using assms by (simp add: Day_hours hh_def)
  have l4: "hh s < hh t \<longleftrightarrow> HourFromTime s < HourFromTime t"
    using divmod_less_iff [of 24 "hh s" "hh t"] d by (simp add: HourFromTime_def hh_def)
  have e4: "hh s = hh t \<longleftrightarrow> HourFromTime s = HourFromTime t"
    using divmod_eq_iff [of "hh s" "hh t" 24] d by (simp add: HourFromTime_def hh_def)
  show ?thesis
    unfolding l1 l2 e2 l3 e3 l4 e4 by blast
qed

lemma Day_less_or_eq: "s < t \<longleftrightarrow> Day s < Day t \<or> (Day s = Day t \<and> TimeWithinDay s < TimeWithinDay t)"
  unfolding Day_def TimeWithinDay_def by (rule divmod_less_iff) (simp add: msPerDay_def)

lemma YearFromTime_mono:
  assumes "Day s \<le> Day t"
  shows "YearFromTime s \<le> YearFromTime t"
proof (rule ccontr)
  assume "\<not> YearFromTime s \<le> YearFromTime t"
  then have "YearFromTime t + 1 \<le> YearFromTime s" by simp
  then have "DayFromYear (YearFromTime t + 1) \<le> DayFromYear (YearFromTime s)"
    by (rule DayFromYear_mono)
  with YearFromTime_bounds [of s] YearFromTime_bounds [of t] assms show False
    by linarith
qed

lemma same_Day:
  assumes "Day s = Day t"
  shows "YearFromTime s = YearFromTime t" "MonthFromTime s = MonthFromTime t"
    "DateFromTime s = DateFromTime t"
proof -
  show y: "YearFromTime s = YearFromTime t"
    by (simp only: YearFromTime_def assms)
  have l: "InLeapYear s = InLeapYear t" and d: "DayWithinYear s = DayWithinYear t"
    by (simp_all add: InLeapYear_def DayWithinYear_def y assms)
  show m: "MonthFromTime s = MonthFromTime t"
    by (simp add: MonthFromTime_def l d)
  show "DateFromTime s = DateFromTime t"
    by (simp add: DateFromTime_def l d m)
qed

lemma DayWithinYear_bounds:
  "0 \<le> DayWithinYear t \<and> DayWithinYear t < 365 + InLeapYear t"
proof -
  have "DaysInYear (YearFromTime t) = 365 + InLeapYear t"
    by (simp add: InLeapYear_def DaysInYear_def)
  then show ?thesis
    using YearFromTime_bounds [of t] DayFromYear_step [of "YearFromTime t"]
    by (simp add: DayWithinYear_def)
qed

lemma InLeapYear_01: "InLeapYear t = 0 \<or> InLeapYear t = 1"
  by (simp add: InLeapYear_def)


lemma month_start_le_day:
  "month_start (MonthFromTime t) (InLeapYear t) \<le> DayWithinYear t \<and>
   (MonthFromTime t < 11 \<longrightarrow>
      DayWithinYear t < month_start (MonthFromTime t + 1) (InLeapYear t))"
  using InLeapYear_01 [of t] DayWithinYear_bounds [of t]
  by (elim disjE) (simp_all add: MonthFromTime_def Let_def month_start_def)

lemma month_start_mono:
  assumes "0 \<le> m" "m \<le> n" "n \<le> 11" "l = 0 \<or> l = 1"
  shows "month_start m l \<le> month_start n l"
proof -
  have n: "0 \<le> n" "n \<le> 11" and m: "0 \<le> m" "m \<le> 11"
    using assms(1,2,3) by simp_all
  show ?thesis
    using month_cases [OF m] month_cases [OF n] assms(2,4)
    by (elim insertE emptyE disjE; simp add: month_start_def)
qed

lemma MonthFromTime_mono:
  assumes y: "YearFromTime s = YearFromTime t" and d: "Day s \<le> Day t"
  shows "MonthFromTime s \<le> MonthFromTime t"
proof (rule ccontr)
  assume n: "\<not> MonthFromTime s \<le> MonthFromTime t"
  have l: "InLeapYear s = InLeapYear t"
    by (simp add: InLeapYear_def y)
  have w: "DayWithinYear s \<le> DayWithinYear t"
    using d by (simp add: DayWithinYear_def y)
  have lt: "MonthFromTime t < 11"
    using n MonthFromTime_range [of s] by simp
  have "month_start (MonthFromTime t + 1) (InLeapYear t) \<le> month_start (MonthFromTime s) (InLeapYear t)"
    using n MonthFromTime_range [of t] MonthFromTime_range [of s] InLeapYear_01 [of t]
    by (intro month_start_mono) simp_all
  with month_start_le_day [of t] month_start_le_day [of s] lt l w show False
    by simp
qed

text \<open>The order of days is the order of year, month and date.\<close>

lemma date_less:
  assumes "Day s < Day t"
  shows "YearFromTime s < YearFromTime t \<or>
         (YearFromTime s = YearFromTime t \<and>
          (MonthFromTime s < MonthFromTime t \<or>
           (MonthFromTime s = MonthFromTime t \<and> DateFromTime s < DateFromTime t)))"
proof (cases "YearFromTime s = YearFromTime t")
  case False
  with YearFromTime_mono [of s t] assms show ?thesis
    by simp
next
  case y: True
  show ?thesis
  proof (cases "MonthFromTime s = MonthFromTime t")
    case False
    with MonthFromTime_mono [OF y] assms y show ?thesis
      by simp
  next
    case m: True
    have l: "InLeapYear s = InLeapYear t"
      by (simp add: InLeapYear_def y)
    have "DayWithinYear s < DayWithinYear t"
      using assms by (simp add: DayWithinYear_def y)
    then have "DateFromTime s < DateFromTime t"
      by (simp add: DateFromTime_month_start m l)
    with y m show ?thesis
      by simp
  qed
qed

lemma DateFromTime_range: "1 \<le> DateFromTime t \<and> DateFromTime t \<le> 31"
proof -
  define m where "m = MonthFromTime t"
  define l where "l = InLeapYear t"
  define d where "d = DayWithinYear t"
  have lo: "month_start m l \<le> d" and hi: "m < 11 \<longrightarrow> d < month_start (m + 1) l"
    using month_start_le_day [of t] by (simp_all add: m_def l_def d_def)
  have l01: "l = 0 \<or> l = 1"
    unfolding l_def by (rule InLeapYear_01)
  have dy: "d < 365 + l"
    using DayWithinYear_bounds [of t] by (simp add: d_def l_def)
  have c: "m \<in> {0, 1, 2, 3, 4, 5, 6, 7, 8, 9, 10, 11}"
    using MonthFromTime_range [of t] unfolding m_def by (intro month_cases) simp_all
  have "d < month_start m l + 31"
    using c l01 hi dy by (elim insertE emptyE disjE) (simp_all add: month_start_def)
  with lo show ?thesis
    unfolding DateFromTime_month_start m_def [symmetric] l_def [symmetric] d_def [symmetric]
    by simp
qed

lemma time_fields_range:
  "0 \<le> HourFromTime t \<and> HourFromTime t < 24 \<and> 0 \<le> MinFromTime t \<and> MinFromTime t < 60 \<and>
   0 \<le> SecFromTime t \<and> SecFromTime t < 60 \<and> 0 \<le> msFromTime t \<and> msFromTime t < 1000"
  by (simp add: HourFromTime_def MinFromTime_def SecFromTime_def msFromTime_def)


lemma pad_field:
  assumes "0 \<le> a" "a < 10 ^ k" "0 \<le> b" "b < 10 ^ k"
  shows "pad k a @ x < pad k b @ y \<longleftrightarrow> a < b \<or> (a = b \<and> x < y)"
  using pad_less_iff [OF assms] by (simp add: less_field length_pad)

text \<open>
  For the years 0 to 9999 the ISO texts of two time values compare as their fields do,
  from the year down to the millisecond.
\<close>

lemma ISOString_less_fields:
  assumes "0 \<le> YearFromTime s" "YearFromTime s \<le> 9999"
      and "0 \<le> YearFromTime t" "YearFromTime t \<le> 9999"
  shows "ISOString s < ISOString t \<longleftrightarrow>
           YearFromTime s < YearFromTime t \<or>
           (YearFromTime s = YearFromTime t \<and>
            (MonthFromTime s < MonthFromTime t \<or>
             (MonthFromTime s = MonthFromTime t \<and>
              (DateFromTime s < DateFromTime t \<or>
               (DateFromTime s = DateFromTime t \<and>
                (HourFromTime s < HourFromTime t \<or>
                 (HourFromTime s = HourFromTime t \<and>
                  (MinFromTime s < MinFromTime t \<or>
                   (MinFromTime s = MinFromTime t \<and>
                    (SecFromTime s < SecFromTime t \<or>
                     (SecFromTime s = SecFromTime t \<and> msFromTime s < msFromTime t)))))))))))"
proof -
  have y: "iso_year (YearFromTime s) = pad 4 (YearFromTime s)"
          "iso_year (YearFromTime t) = pad 4 (YearFromTime t)"
    using assms by (simp_all add: iso_year_def)
  have Y: "pad 4 (YearFromTime s) @ x < pad 4 (YearFromTime t) @ z \<longleftrightarrow>
             YearFromTime s < YearFromTime t \<or> (YearFromTime s = YearFromTime t \<and> x < z)" for x z
    using assms by (intro pad_field) simp_all
  have M: "pad 2 (MonthFromTime s + 1) @ x < pad 2 (MonthFromTime t + 1) @ z \<longleftrightarrow>
             MonthFromTime s < MonthFromTime t \<or> (MonthFromTime s = MonthFromTime t \<and> x < z)" for x z
    using pad_field [of "MonthFromTime s + 1" 2 "MonthFromTime t + 1" x z]
      MonthFromTime_range [of s] MonthFromTime_range [of t] by auto
  have D: "pad 2 (DateFromTime s) @ x < pad 2 (DateFromTime t) @ z \<longleftrightarrow>
             DateFromTime s < DateFromTime t \<or> (DateFromTime s = DateFromTime t \<and> x < z)" for x z
    using DateFromTime_range [of s] DateFromTime_range [of t] by (intro pad_field) simp_all
  have H: "pad 2 (HourFromTime s) @ x < pad 2 (HourFromTime t) @ z \<longleftrightarrow>
             HourFromTime s < HourFromTime t \<or> (HourFromTime s = HourFromTime t \<and> x < z)" for x z
    using time_fields_range [of s] time_fields_range [of t] by (intro pad_field) simp_all
  have Mi: "pad 2 (MinFromTime s) @ x < pad 2 (MinFromTime t) @ z \<longleftrightarrow>
             MinFromTime s < MinFromTime t \<or> (MinFromTime s = MinFromTime t \<and> x < z)" for x z
    using time_fields_range [of s] time_fields_range [of t] by (intro pad_field) simp_all
  have S: "pad 2 (SecFromTime s) @ x < pad 2 (SecFromTime t) @ z \<longleftrightarrow>
             SecFromTime s < SecFromTime t \<or> (SecFromTime s = SecFromTime t \<and> x < z)" for x z
    using time_fields_range [of s] time_fields_range [of t] by (intro pad_field) simp_all
  have Ms: "pad 3 (msFromTime s) @ x < pad 3 (msFromTime t) @ z \<longleftrightarrow>
             msFromTime s < msFromTime t \<or> (msFromTime s = msFromTime t \<and> x < z)" for x z
    using time_fields_range [of s] time_fields_range [of t] by (intro pad_field) simp_all
  show ?thesis
    unfolding ISOString_def y Y
    by (simp add: M D H Mi S Ms)
qed

lemma ISOString_mono:
  assumes "0 \<le> YearFromTime s" "YearFromTime s \<le> 9999"
      and "0 \<le> YearFromTime t" "YearFromTime t \<le> 9999"
      and "s < t"
  shows "ISOString s < ISOString t"
proof (cases "Day s < Day t")
  case True
  then show ?thesis
    unfolding ISOString_less_fields [OF assms(1-4)] using date_less [of s t] by blast
next
  case False
  then have d: "Day s = Day t"
    using assms(5) Day_less_or_eq [of s t] by auto
  show ?thesis
    unfolding ISOString_less_fields [OF assms(1-4)]
    using time_of_day_less_iff [OF d] same_Day [OF d] assms(5) by simp
qed

text \<open>
  For the years 0 to 9999, the text order of ISO date-time strings is the order of the
  time values.
\<close>

lemma ISOString_less_iff:
  assumes "0 \<le> YearFromTime s" "YearFromTime s \<le> 9999"
      and "0 \<le> YearFromTime t" "YearFromTime t \<le> 9999"
  shows "ISOString s < ISOString t \<longleftrightarrow> s < t"
proof
  assume "s < t"
  with assms show "ISOString s < ISOString t" by (rule ISOString_mono)
next
  assume l: "ISOString s < ISOString t"
  show "s < t"
  proof (rule ccontr)
    assume "\<not> s < t"
    then have "s = t \<or> t < s" by auto
    then show False
    proof
      assume "s = t"
      with l show False by simp
    next
      assume "t < s"
      with assms have "ISOString t < ISOString s"
        by (intro ISOString_mono) simp_all
      with l show False by simp
    qed
  qed
qed


section \<open>Retention sweep\<close>

lemma set_foldl_set_add: "set (foldl set_add s xs) = set s \<union> set xs"
  by (induction xs arbitrary: s) (auto simp: set_add_def)

lemma distinct_foldl_set_add: "distinct s \<Longrightarrow> distinct (foldl set_add s xs)"
  by (induction xs arbitrary: s) (auto simp: set_add_def)

lemma outputs_delete:
  "outputs (snd (OutputModel_delete i db)) = filter (\<lambda>r. output_id r \<noteq> i) (outputs db)"
proof (cases "OutputModel_getById i db")
  case None
  then have "\<forall>r \<in> set (outputs db). output_id r \<noteq> i"
    by (auto simp: OutputModel_getById_def find_None_iff)
  then have "filter (\<lambda>r. output_id r \<noteq> i) (outputs db) = outputs db"
    by (simp add: filter_id_conv)
  with None show ?thesis by (simp add: OutputModel_delete_def)
next
  case (Some r)
  then show ?thesis by (simp add: OutputModel_delete_def)
qed

lemma frame_delete:
  "automations (snd (OutputModel_delete i db)) = automations db \<and>
   logs (snd (OutputModel_delete i db)) = logs db"
  by (simp add: OutputModel_delete_def split: option.splits)

lemma foldl_cleanup_step:
  "outputs (fst (foldl cleanup_step (db, n) ids)) =
     filter (\<lambda>r. output_id r \<notin> set ids) (outputs db) \<and>
   snd (foldl cleanup_step (db, n) ids) = n + length ids"
proof (induction ids arbitrary: db n)
  case Nil
  then show ?case by simp
next
  case (Cons i ids)
  have f: "filter (\<lambda>r. output_id r \<notin> set ids) (filter (\<lambda>r. output_id r \<noteq> i) (outputs db)) =
        filter (\<lambda>r. output_id r \<notin> set (i # ids)) (outputs db)"
    by (induction "outputs db") auto
  have s: "foldl cleanup_step (db, n) (i # ids) =
           foldl cleanup_step (snd (OutputModel_delete i db), n + 1) ids"
    by (simp add: cleanup_step_def)
  show ?case
    unfolding s using Cons.IH [of "snd (OutputModel_delete i db)" "n + 1"] f
    by (simp only: outputs_delete list.size add.assoc) simp
qed

lemma id_in_swept_ids:
  assumes "distinct (map output_id rows)" and "r \<in> set rows"
  shows "output_id r \<in> output_id ` {x \<in> set rows. P x} \<longleftrightarrow> P r"
proof
  assume "output_id r \<in> output_id ` {x \<in> set rows. P x}"
  then obtain x where x: "x \<in> set rows" "P x" "output_id x = output_id r"
    by auto
  from assms(1) have "inj_on output_id (set rows)"
    by (simp add: distinct_map)
  with x(1,3) assms(2) have "x = r"
    by (auto dest: inj_onD)
  with x(2) show "P r" by simp
next
  assume "P r"
  with assms(2) show "output_id r \<in> output_id ` {x \<in> set rows. P x}"
    by auto
qed

lemma swept_ids_count:
  assumes "distinct (map output_id rows)"
  shows "length (foldl set_add [] (map output_id (filter P rows @ filter Q rows))) =
         length (filter (\<lambda>r. P r \<or> Q r) rows)"
proof -
  let ?ids = "foldl set_add [] (map output_id (filter P rows @ filter Q rows))"
  let ?R = "\<lambda>r. P r \<or> Q r"
  have d: "distinct ?ids"
    by (rule distinct_foldl_set_add) simp
  have "set ?ids = output_id ` (set (filter P rows) \<union> set (filter Q rows))"
    by (simp only: set_foldl_set_add set_map set_append) simp
  also have "set (filter P rows) \<union> set (filter Q rows) = set (filter ?R rows)"
    by auto
  finally have s: "set ?ids = set (map output_id (filter ?R rows))"
    by (simp only: set_map)
  have dm: "distinct (map output_id (filter ?R rows))"
    using assms by (rule distinct_map_filter)
  have "length ?ids = card (set ?ids)"
    using d by (rule distinct_card [symmetric])
  also have "\<dots> = card (set (map output_id (filter ?R rows)))"
    by (simp only: s)
  also have "\<dots> = length (map output_id (filter ?R rows))"
    using dm by (rule distinct_card)
  finally show ?thesis by (simp only: length_map)
qed

definition scenarioC_db :: database where
  "scenarioC_db = \<lparr> automations = [], logs = [],
     outputs = [
       \<lparr> output_id = ''1'', output_automationId = ''a'', output_name = ''n1'', output_type = ''text'',
         output_data = ''d'', output_timestamp = ''2024-06-01T10:00:00.000Z'' \<rparr>,
       \<lparr> output_id = ''2'', output_automationId = ''a'', output_name = ''n2'', output_type = ''json'',
         output_data = ''d'', output_timestamp = ''2024-06-20T10:00:00.000Z'' \<rparr>,
       \<lparr> output_id = ''3'', output_automationId = ''a'', output_name = ''n3'', output_type = ''text'',
         output_data = ''d'', output_timestamp = ''2024-06-21T10:00:00.000Z'' \<rparr>,
       \<lparr> output_id = ''4'', output_automationId = ''a'', output_name = ''n4'', output_type = ''screenshot'',
         output_data = ''d'', output_timestamp = ''2024-06-02T10:00:00.000Z'' \<rparr>,
       \<lparr> output_id = ''5'', output_automationId = ''a'', output_name = ''n5'', output_type = ''screenshot'',
         output_data = ''d'', output_timestamp = ''2024-06-22T10:00:00.000Z'' \<rparr>] \<rparr>"

text \<open>A clock two hours east of UTC, read at 2024-06-22T10:00:00.000Z.\<close>

definition demo_clock :: clock where
  "demo_clock = \<lparr> clock_now = 1719050400000, LocalTZA = (\<lambda>t u. 7200000) \<rparr>"

lemma cleanupOldOutputs_cutoff:
  "OutputModel_cleanupOldOutputs rt (Whole D) db =
     (case TimeClip (UTC rt (LocalTime rt (clock_now rt) - D * msPerDay)) of
        None \<Rightarrow> Inl (RangeError ''Invalid time value'')
      | Some t \<Rightarrow>
          (let ids = foldl set_add []
                       (map output_id
                          (filter (\<lambda>r. output_timestamp r < ISOString t) (outputs db) @
                           filter (\<lambda>r. output_type r \<noteq> ''screenshot'') (outputs db)));
               final = foldl cleanup_step (db, 0) ids
           in Inr (\<lparr> deleted = snd final,
                     oldOutputsRemoved =
                       length (filter (\<lambda>r. output_timestamp r < ISOString t) (outputs db)),
                     nonScreenshotsRemoved =
                       length (filter (\<lambda>r. output_type r \<noteq> ''screenshot'') (outputs db)) \<rparr>,
                   fst final)))"
  unfolding OutputModel_cleanupOldOutputs_def Let_def setDate_getDate
  by (simp add: Date_toISOString_def split: option.splits)

text \<open>
  A window for which the date \<open>D\<close> days before now is not a valid date, and a window
  that is not a number: \<open>toISOString\<close> throws and nothing is deleted.
\<close>

lemma cleanupOldOutputs_invalid_date:
  assumes "TimeClip (UTC rt (LocalTime rt (clock_now rt) - D * msPerDay)) = None"
  shows "OutputModel_cleanupOldOutputs rt (Whole D) db = Inl (RangeError ''Invalid time value'')"
  unfolding cleanupOldOutputs_cutoff assms by simp

lemma cleanupOldOutputs_NaN:
  "OutputModel_cleanupOldOutputs rt NaN db = Inl (RangeError ''Invalid time value'')"
  by (simp add: OutputModel_cleanupOldOutputs_def Date_setDate_def Date_toISOString_def)

text \<open>
  The sweep for a valid cutoff: what it returns and which rows survive.
\<close>

lemma cleanupOldOutputs_survivors:
  assumes "distinct (map output_id (outputs db))"
      and "TimeClip (UTC rt (LocalTime rt (clock_now rt) - D * msPerDay)) = Some t"
  shows "\<exists>res db'.
           OutputModel_cleanupOldOutputs rt (Whole D) db = Inr (res, db') \<and>
           outputs db' = filter (\<lambda>r. \<not> swept (ISOString t) r) (outputs db) \<and>
           deleted res = length (filter (swept (ISOString t)) (outputs db)) \<and>
           oldOutputsRemoved res =
             length (filter (\<lambda>r. output_timestamp r < ISOString t) (outputs db)) \<and>
           nonScreenshotsRemoved res =
             length (filter (\<lambda>r. output_type r \<noteq> ''screenshot'') (outputs db))"
proof -
  let ?old = "\<lambda>r. output_timestamp r < ISOString t"
  let ?non = "\<lambda>r. output_type r \<noteq> ''screenshot''"
  let ?ids = "foldl set_add [] (map output_id (filter ?old (outputs db) @ filter ?non (outputs db)))"
  let ?final = "foldl cleanup_step (db, 0) ?ids"
  let ?res = "\<lparr> deleted = snd ?final,
                 oldOutputsRemoved = length (filter ?old (outputs db)),
                 nonScreenshotsRemoved = length (filter ?non (outputs db)) \<rparr>"
  have res: "OutputModel_cleanupOldOutputs rt (Whole D) db = Inr (?res, fst ?final)"
    unfolding cleanupOldOutputs_cutoff assms(2) by (simp add: Let_def)
  have sw: "swept (ISOString t) = (\<lambda>r. ?old r \<or> ?non r)"
    by (rule ext) (simp add: swept_def)
  have ids: "set ?ids = output_id ` {x \<in> set (outputs db). swept (ISOString t) x}"
    unfolding sw by (simp only: set_foldl_set_add set_map set_append) auto
  have mem: "output_id r \<in> set ?ids \<longleftrightarrow> swept (ISOString t) r" if "r \<in> set (outputs db)" for r
    unfolding ids using assms(1) that by (rule id_in_swept_ids)
  have out: "outputs (fst ?final) = filter (\<lambda>r. output_id r \<notin> set ?ids) (outputs db)"
    using foldl_cleanup_step [of db 0 ?ids] by simp
  have keep: "filter (\<lambda>r. output_id r \<notin> set ?ids) (outputs db) =
              filter (\<lambda>r. \<not> swept (ISOString t) r) (outputs db)"
  proof (rule filter_cong)
    fix r assume "r \<in> set (outputs db)"
    then show "(output_id r \<notin> set ?ids) = (\<not> swept (ISOString t) r)"
      by (simp only: mem)
  qed (rule refl)
  have cnt: "snd ?final = length (filter (swept (ISOString t)) (outputs db))"
    using foldl_cleanup_step [of db 0 ?ids] swept_ids_count [OF assms(1), of ?old ?non]
    unfolding sw by simp
  have surv: "outputs (fst ?final) = filter (\<lambda>r. \<not> swept (ISOString t) r) (outputs db)"
    using out keep by simp
  have "outputs (fst ?final) = filter (\<lambda>r. \<not> swept (ISOString t) r) (outputs db) \<and>
        deleted ?res = length (filter (swept (ISOString t)) (outputs db)) \<and>
        oldOutputsRemoved ?res = length (filter ?old (outputs db)) \<and>
        nonScreenshotsRemoved ?res = length (filter ?non (outputs db))"
    unfolding surv using cnt by simp
  with res show ?thesis
    by blast
qed

text \<open>
  C4, as amended. For every whole retention window \<open>D\<close> for which the instant \<open>t\<close>,
  \<open>D\<close> days of 24 hours before the local time of now, is a valid date, and every
  outputs table (ids unique, as the primary key guarantees): \<open>cleanupOldOutputs(D)\<close>
  returns, and the surviving rows are exactly the rows that are neither older than the
  cutoff nor of a type other than \<open>screenshot\<close>, in table order, so a row has been
  deleted if and only if it was older than \<open>D\<close> days or its type was not
  \<open>screenshot\<close>. Older means that the timestamp text sorts before the ISO text of
  \<open>t\<close>; for a row stamped by \<open>toISOString\<close> at an instant \<open>\<tau>\<close>, with both in the
  years 0 to 9999, that is \<open>\<tau> < t\<close>. The returned counts are the number of deleted
  rows, of old rows and of non-screenshot rows.
\<close>

theorem cleanupOldOutputs_sweeps_exactly:
  assumes "distinct (map output_id (outputs db))"
      and "TimeClip (UTC rt (LocalTime rt (clock_now rt) - D * msPerDay)) = Some t"
  shows "\<exists>res db'.
           OutputModel_cleanupOldOutputs rt (Whole D) db = Inr (res, db') \<and>
           t = UTC rt (LocalTime rt (clock_now rt) - D * msPerDay) \<and>
           outputs db' = filter (\<lambda>r. \<not> swept (ISOString t) r) (outputs db) \<and>
           (\<forall>r. r \<in> set (outputs db) \<longrightarrow>
              (r \<notin> set (outputs db') \<longleftrightarrow> swept (ISOString t) r)) \<and>
           (\<forall>r \<tau>. r \<in> set (outputs db) \<longrightarrow> output_timestamp r = ISOString \<tau> \<longrightarrow>
              0 \<le> YearFromTime \<tau> \<longrightarrow> YearFromTime \<tau> \<le> 9999 \<longrightarrow>
              0 \<le> YearFromTime t \<longrightarrow> YearFromTime t \<le> 9999 \<longrightarrow>
              (r \<notin> set (outputs db') \<longleftrightarrow> \<tau> < t \<or> output_type r \<noteq> ''screenshot'')) \<and>
           deleted res = length (filter (swept (ISOString t)) (outputs db)) \<and>
           oldOutputsRemoved res =
             length (filter (\<lambda>r. output_timestamp r < ISOString t) (outputs db)) \<and>
           nonScreenshotsRemoved res =
             length (filter (\<lambda>r. output_type r \<noteq> ''screenshot'') (outputs db))"
proof -
  from cleanupOldOutputs_survivors [OF assms] obtain res db' where
    r: "OutputModel_cleanupOldOutputs rt (Whole D) db = Inr (res, db')" and
    o: "outputs db' = filter (\<lambda>r. \<not> swept (ISOString t) r) (outputs db)" and
    c: "deleted res = length (filter (swept (ISOString t)) (outputs db))"
       "oldOutputsRemoved res =
          length (filter (\<lambda>r. output_timestamp r < ISOString t) (outputs db))"
       "nonScreenshotsRemoved res =
          length (filter (\<lambda>r. output_type r \<noteq> ''screenshot'') (outputs db))"
    by blast
  have t: "t = UTC rt (LocalTime rt (clock_now rt) - D * msPerDay)"
    using assms(2) by (simp add: TimeClip_def split: if_splits)
  have m: "r \<notin> set (outputs db') \<longleftrightarrow> swept (ISOString t) r" if "r \<in> set (outputs db)" for r
    using that by (simp add: o)
  have a: "r \<notin> set (outputs db') \<longleftrightarrow> \<tau> < t \<or> output_type r \<noteq> ''screenshot''"
    if "r \<in> set (outputs db)" "output_timestamp r = ISOString \<tau>"
       "0 \<le> YearFromTime \<tau>" "YearFromTime \<tau> \<le> 9999" "0 \<le> YearFromTime t" "YearFromTime t \<le> 9999"
    for r \<tau>
    using m [OF that(1)] ISOString_less_iff [OF that(3,4,5,6)]
    by (simp add: swept_def that(2))
  show ?thesis
    using r t o m a c by blast
qed

text \<open>
  The sweep with a window of 7 days on a table shaped like the spec's Scenario C: three
  non-screenshot rows, one old screenshot and one recent screenshot; only the recent
  screenshot survives.
\<close>

theorem cleanupOldOutputs_scenario_C:
  "distinct (map output_id (outputs scenarioC_db)) \<and>
   TimeClip (UTC demo_clock (LocalTime demo_clock (clock_now demo_clock) - 7 * msPerDay)) =
     Some 1718445600000 \<and>
   ISOString 1718445600000 = ''2024-06-15T10:00:00.000Z'' \<and>
   (\<exists>res db'.
      OutputModel_cleanupOldOutputs demo_clock (Whole 7) scenarioC_db = Inr (res, db') \<and>
      map output_id (outputs db') = [''5''] \<and>
      deleted res = 4 \<and> oldOutputsRemoved res = 2 \<and> nonScreenshotsRemoved res = 3)"
proof -
  have h: "distinct (map output_id (outputs scenarioC_db))"
    by (simp add: scenarioC_db_def)
  have c: "TimeClip (UTC demo_clock (LocalTime demo_clock (clock_now demo_clock) - 7 * msPerDay)) =
             Some 1718445600000"
    by (simp add: TimeClip_def UTC_def LocalTime_def demo_clock_def msPerDay_def)
  have i: "ISOString 1718445600000 = ''2024-06-15T10:00:00.000Z''"
    by code_simp
  from cleanupOldOutputs_sweeps_exactly [OF h c] obtain res db' where
    r: "OutputModel_cleanupOldOutputs demo_clock (Whole 7) scenarioC_db = Inr (res, db')" and
    o: "outputs db' = filter (\<lambda>r. \<not> swept (ISOString 1718445600000) r) (outputs scenarioC_db)" and
    d: "deleted res = length (filter (swept (ISOString 1718445600000)) (outputs scenarioC_db))" and
    l: "oldOutputsRemoved res =
          length (filter (\<lambda>r. output_timestamp r < ISOString 1718445600000) (outputs scenarioC_db))" and
    n: "nonScreenshotsRemoved res =
          length (filter (\<lambda>r. output_type r \<noteq> ''screenshot'') (outputs scenarioC_db))"
    by blast
  have o': "map output_id (outputs db') = [''5'']"
    unfolding o i by (simp add: scenarioC_db_def swept_def)
  have d': "deleted res = 4"
    unfolding d i by (simp add: scenarioC_db_def swept_def)
  have l': "oldOutputsRemoved res = 2"
    unfolding l i by (simp add: scenarioC_db_def)
  have n': "nonScreenshotsRemoved res = 3"
    unfolding n by (simp add: scenarioC_db_def)
  have e: "\<exists>res db'.
      OutputModel_cleanupOldOutputs demo_clock (Whole 7) scenarioC_db = Inr (res, db') \<and>
      map output_id (outputs db') = [''5''] \<and>
      deleted res = 4 \<and> oldOutputsRemoved res = 2 \<and> nonScreenshotsRemoved res = 3"
    using r o' d' l' n' by (intro exI [of _ res] exI [of _ db'] conjI)
  show ?thesis
    using h c i e by (intro conjI)
qed

text \<open>
  The claim as stated fails for a window whose cutoff is not a valid date: with a window
  of 1000000000 days the sweep throws a \<open>RangeError\<close> and deletes nothing, although the
  table holds a row whose type is not \<open>screenshot\<close>.
\<close>

theorem cleanupOldOutputs_throws_outside_date_range:
  "OutputModel_cleanupOldOutputs demo_clock (Whole 1000000000) scenarioC_db =
     Inl (RangeError ''Invalid time value'') \<and>
   output_type (hd (outputs scenarioC_db)) = ''text''"
proof -
  have "TimeClip (UTC demo_clock (LocalTime demo_clock (clock_now demo_clock)
                    - 1000000000 * msPerDay)) = None"
    by (simp add: TimeClip_def UTC_def LocalTime_def demo_clock_def msPerDay_def)
  then have "OutputModel_cleanupOldOutputs demo_clock (Whole 1000000000) scenarioC_db =
               Inl (RangeError ''Invalid time value'')"
    by (rule cleanupOldOutputs_invalid_date)
  then show ?thesis
    by (simp add: scenarioC_db_def)
qed


section \<open>Paginated artifact listing\<close>

text \<open>
  \<open>GET /api/outputs\<close> (server.cjs). A query parameter is read as
  \<open>parseInt(req.query.x) || d\<close>: \<open>None\<close> stands for \<open>NaN\<close> (absent or not a
  number), and both \<open>NaN\<close> and \<open>0\<close> give the default.
\<close>

definition query_int :: "int option \<Rightarrow> int \<Rightarrow> int" where
  "query_int q d = (case q of None \<Rightarrow> d | Some n \<Rightarrow> if n = 0 then d else n)"

record outputs_response =
  resp_success :: bool
  resp_files :: "output_row list"
  resp_count :: int
  resp_total :: int
  resp_page :: int
  resp_limit :: int
  resp_hasMore :: bool

definition get_api_outputs ::
  "int option \<Rightarrow> int option \<Rightarrow> int option \<Rightarrow> database \<Rightarrow> outputs_response" where
  "get_api_outputs qpage qlimit qskip db =
     (let page = query_int qpage 1;
          limit = query_int qlimit 20;
          skip = query_int qskip 0;
          result = OutputModel_getAll page limit skip db
      in \<lparr> resp_success = True,
           resp_files = res_files result,
           resp_count = int (length (res_files result)),
           resp_total = res_total result,
           resp_page = res_page result,
           resp_limit = res_limit result,
           resp_hasMore = ((res_page result * res_limit result) < res_total result) \<rparr>)"

text \<open>Descending by timestamp: every row is at least as recent as the rows after it.\<close>

definition timestamp_desc :: "output_row list \<Rightarrow> bool" where
  "timestamp_desc rows = sorted_wrt (\<lambda>a b. output_timestamp b \<le> output_timestamp a) rows"

lemma set_insert_desc: "set (insert_desc x ys) = insert x (set ys)"
  by (induction ys) auto

lemma length_insert_desc: "length (insert_desc x ys) = Suc (length ys)"
  by (induction ys) auto

lemma distinct_insert_desc:
  "distinct (map output_id (insert_desc x ys)) =
     (output_id x \<notin> output_id ` set ys \<and> distinct (map output_id ys))"
  by (induction ys) (auto simp: set_insert_desc)

lemma sorted_insert_desc:
  "sorted_wrt (\<lambda>a b. output_timestamp b \<le> output_timestamp a) ys \<Longrightarrow>
   sorted_wrt (\<lambda>a b. output_timestamp b \<le> output_timestamp a) (insert_desc x ys)"
proof (induction ys)
  case Nil
  then show ?case by simp
next
  case (Cons y ys)
  show ?case
  proof (cases "output_timestamp y \<le> output_timestamp x")
    case True
    with Cons.prems show ?thesis by (auto intro: order_trans)
  next
    case False
    then have "output_timestamp x \<le> output_timestamp y" by simp
    with False Cons show ?thesis by (auto simp: set_insert_desc)
  qed
qed

lemma length_order_by: "length (order_by_timestamp_desc rows) = length rows"
  unfolding order_by_timestamp_desc_def
  by (induction rows) (simp_all add: length_insert_desc)

lemma set_order_by: "set (order_by_timestamp_desc rows) = set rows"
  unfolding order_by_timestamp_desc_def
  by (induction rows) (simp_all add: set_insert_desc)

lemma sorted_order_by: "timestamp_desc (order_by_timestamp_desc rows)"
  unfolding order_by_timestamp_desc_def timestamp_desc_def
  by (induction rows) (simp_all add: sorted_insert_desc)

lemma distinct_order_by:
  "distinct (map output_id rows) \<Longrightarrow> distinct (map output_id (order_by_timestamp_desc rows))"
  using set_order_by unfolding order_by_timestamp_desc_def
  by (induction rows) (simp_all add: distinct_insert_desc order_by_timestamp_desc_def)

text \<open>
  The page read: for a non-negative limit and offset, the files are the \<open>limit\<close> rows
  that start at offset \<open>(page - 1) * limit + skip\<close> of the table ordered by timestamp
  descending.
\<close>

lemma getAll_files:
  assumes "0 \<le> limit" and "0 \<le> (page - 1) * limit + skip"
  shows "res_files (OutputModel_getAll page limit skip db) =
           take (nat limit) (drop (nat ((page - 1) * limit + skip))
             (order_by_timestamp_desc (outputs db)))"
  using assms by (simp add: OutputModel_getAll_def sql_limit_offset_def Let_def)

lemma getAll_files_desc:
  assumes "0 \<le> limit" and "0 \<le> (page - 1) * limit + skip"
  shows "timestamp_desc (res_files (OutputModel_getAll page limit skip db))"
proof -
  have "sorted_wrt (\<lambda>a b. output_timestamp b \<le> output_timestamp a)
          (order_by_timestamp_desc (outputs db))"
    using sorted_order_by [of "outputs db"] by (simp add: timestamp_desc_def)
  then have "sorted_wrt (\<lambda>a b. output_timestamp b \<le> output_timestamp a)
          (take (nat limit) (drop (nat ((page - 1) * limit + skip))
             (order_by_timestamp_desc (outputs db))))"
    by (intro sorted_wrt_take sorted_wrt_drop)
  then show ?thesis
    unfolding getAll_files [OF assms] timestamp_desc_def .
qed

text \<open>
  Page 1 then page 2 (same limit \<open>L\<close>, skip 0), merged: the first \<open>2 * L\<close> rows of the
  ordered table, contiguous, without repetition and descending.
\<close>

lemma getAll_two_pages:
  assumes "0 \<le> L"
  shows "res_files (OutputModel_getAll 1 L 0 db) @ res_files (OutputModel_getAll 2 L 0 db) =
           take (2 * nat L) (order_by_timestamp_desc (outputs db))"
proof -
  have "take (nat L) xs @ take (nat L) (drop (nat L) xs) = take (2 * nat L) xs" for xs :: "output_row list"
    by (simp add: take_add [symmetric] mult_2)
  then show ?thesis
    using assms by (simp add: OutputModel_getAll_def sql_limit_offset_def Let_def)
qed

lemma getAll_two_pages_disjoint:
  assumes "0 \<le> L" and "distinct (map output_id (outputs db))"
  shows "distinct (map output_id
           (res_files (OutputModel_getAll 1 L 0 db) @ res_files (OutputModel_getAll 2 L 0 db)))"
proof -
  have "distinct (map output_id (order_by_timestamp_desc (outputs db)))"
    using assms(2) by (rule distinct_order_by)
  then have "distinct (take (2 * nat L) (map output_id (order_by_timestamp_desc (outputs db))))"
    by (rule distinct_take)
  then show ?thesis
    unfolding getAll_two_pages [OF assms(1)] by (simp only: take_map)
qed

text \<open>
  Past the end: when \<open>skip\<close> does not exceed \<open>limit\<close> (in particular for skip 0), a
  request whose offset is at or past the total count gets no files and
  \<open>hasMore = false\<close>.
\<close>

lemma get_api_outputs_past_end:
  assumes "query_int qskip 0 \<le> query_int qlimit 20"
      and "0 \<le> query_int qlimit 20"
      and "int (length (outputs db)) \<le>
             (query_int qpage 1 - 1) * query_int qlimit 20 + query_int qskip 0"
  shows "resp_files (get_api_outputs qpage qlimit qskip db) = [] \<and>
         \<not> resp_hasMore (get_api_outputs qpage qlimit qskip db)"
proof -
  let ?p = "query_int qpage 1" and ?l = "query_int qlimit 20" and ?s = "query_int qskip 0"
  have off: "0 \<le> (?p - 1) * ?l + ?s"
    using assms(3) by (meson of_nat_0_le_iff order_trans)
  have "length (order_by_timestamp_desc (outputs db)) \<le> nat ((?p - 1) * ?l + ?s)"
    using assms(3) by (simp add: length_order_by)
  then have files: "res_files (OutputModel_getAll ?p ?l ?s db) = []"
    unfolding getAll_files [OF assms(2) off] by simp
  have "?p * ?l = (?p - 1) * ?l + ?l"
    by (simp add: algebra_simps)
  with assms(1,3) have "int (length (outputs db)) \<le> ?p * ?l"
    by linarith
  then have "\<not> (res_page (OutputModel_getAll ?p ?l ?s db) * res_limit (OutputModel_getAll ?p ?l ?s db)
              < res_total (OutputModel_getAll ?p ?l ?s db))"
    by (simp add: OutputModel_getAll_def Let_def)
  with files show ?thesis
    by (simp add: get_api_outputs_def Let_def)
qed

text \<open>
  C5. The claim that every request whose offset is past the total count returns an
  empty files list with \<open>hasMore = false\<close> fails on the handler: \<open>hasMore\<close> is
  computed as \<open>page * limit < total\<close>, without the skip that the offset includes. With
  the five rows of Scenario C, \<open>page = 1\<close>, \<open>limit = 2\<close>, \<open>skip = 6\<close>: the offset 6 is
  past the total 5, the files list is empty, and \<open>hasMore\<close> is true.
\<close>

theorem get_api_outputs_hasMore_ignores_skip:
  "resp_files (get_api_outputs (Some 1) (Some 2) (Some 6) scenarioC_db) = [] \<and>
   resp_total (get_api_outputs (Some 1) (Some 2) (Some 6) scenarioC_db) = 5 \<and>
   resp_hasMore (get_api_outputs (Some 1) (Some 2) (Some 6) scenarioC_db) = True"
  by (simp add: get_api_outputs_def query_int_def OutputModel_getAll_def Let_def
      sql_limit_offset_def length_order_by scenarioC_db_def)


section \<open>AutomationModel and LogModel\<close>

definition AutomationModel_getById :: "string \<Rightarrow> database \<Rightarrow> automation_row option" where
  "AutomationModel_getById i db = find (\<lambda>a. automation_id a = i) (automations db)"

text \<open>
  \<open>updateStatus(id, status)\<close>: \<open>UPDATE automations SET status = ?, updatedAt = ?
  WHERE id = ?\<close>; \<open>now\<close> is the text of \<open>new Date().toISOString()\<close> at the call.
\<close>

definition AutomationModel_updateStatus ::
  "string \<Rightarrow> string \<Rightarrow> string \<Rightarrow> database \<Rightarrow> database" where
  "AutomationModel_updateStatus i status now db =
     db\<lparr> automations :=
       map (\<lambda>a. if automation_id a = i
                 then a\<lparr> automation_status := status, automation_updatedAt := now \<rparr>
                 else a)
           (automations db) \<rparr>"

text \<open>
  \<open>LogModel.create\<close>: the \<open>INSERT\<close> throws on a duplicate primary key and on a
  foreign key without its automation row (better-sqlite3 enforces foreign keys). The
  server loads src/db/models/log.cjs; the definition follows src/db/models/log.js, the
  same model written for the other module system.
\<close>

definition LogModel_create :: "log_row \<Rightarrow> database \<Rightarrow> error + database" where
  "LogModel_create log db =
     (if log_id log \<in> set (map log_id (logs db))
      then Inl (SqliteError ''UNIQUE constraint failed: logs.id'')
      else if log_automationId log \<in> set (map automation_id (automations db))
      then Inr (db\<lparr> logs := logs db @ [log] \<rparr>)
      else Inl (SqliteError ''FOREIGN KEY constraint failed''))"


section \<open>OutputModel: writes\<close>

text \<open>
  The runtime and library behaviour the run coordinator depends on, taken as
  parameters: \<open>JSON.stringify\<close> (plain and with indent 2, as text), the text of a
  number, array or object inside a template literal, the text SQLite stores when
  better-sqlite3 binds a value to a \<open>TEXT\<close> column (\<open>None\<close> when it refuses to
  bind it), and the clock readings at each call site.
\<close>

record run_env =
  stringify :: "jsval \<Rightarrow> string"
  stringify_pretty :: "jsval \<Rightarrow> string"
  to_string :: "jsval \<Rightarrow> string"
  sql_text :: "jsval \<Rightarrow> string option"
  executionTime :: string
  running_iso :: string
  completed_iso :: string
  failed_iso :: string
  shot_iso :: string
  shot_locale :: string
  output_now_id :: string
  output_now_iso :: string
  log_now_id :: string
  log_now_iso :: string
  faillog_now_id :: string
  faillog_now_iso :: string

text \<open>The object handed to \<open>OutputModel.create\<close>; the name is whatever the caller passed.\<close>

record output_obj =
  obj_id :: string
  obj_automationId :: string
  obj_name :: jsval
  obj_type :: string
  obj_data :: string
  obj_timestamp :: string

definition OutputModel_create ::
  "run_env \<Rightarrow> output_obj \<Rightarrow> database \<Rightarrow> error + (output_row \<times> database)" where
  "OutputModel_create env output db =
     (case sql_text env (obj_name output) of
        None \<Rightarrow> Inl (TypeError ''SQLite3 can only bind numbers, strings, bigints, buffers, and null'')
      | Some name \<Rightarrow>
          if obj_id output \<in> set (map output_id (outputs db))
          then Inl (SqliteError ''UNIQUE constraint failed: outputs.id'')
          else if obj_automationId output \<in> set (map automation_id (automations db))
          then (let row = \<lparr> output_id = obj_id output,
                             output_automationId = obj_automationId output,
                             output_name = name,
                             output_type = obj_type output,
                             output_data = obj_data output,
                             output_timestamp = obj_timestamp output \<rparr>
                in Inr (row, db\<lparr> outputs := outputs db @ [row] \<rparr>))
          else Inl (SqliteError ''FOREIGN KEY constraint failed''))"

text \<open>
  \<open>saveOutput(automationId, data, name, type)\<close>: the data is stringified unless it is
  a string already; any error of the write is caught and \<open>null\<close> is returned.
\<close>

definition OutputModel_saveOutput ::
  "run_env \<Rightarrow> string \<Rightarrow> jsval \<Rightarrow> jsval \<Rightarrow> string \<Rightarrow> database
     \<Rightarrow> output_row option \<times> database" where
  "OutputModel_saveOutput env automationId data name type db =
     (let dataString = (case data of JStr s \<Rightarrow> s | _ \<Rightarrow> stringify env data);
          output = \<lparr> obj_id = output_now_id env,
                     obj_automationId = automationId,
                     obj_name = name,
                     obj_type = type,
                     obj_data = dataString,
                     obj_timestamp = output_now_iso env \<rparr>
      in case OutputModel_create env output db of
           Inl err \<Rightarrow> (None, db)
         | Inr (savedOutput, db') \<Rightarrow> (Some savedOutput, db'))"


section \<open>Log capture and the screenshot filename hint (server.cjs)\<close>

definition is_sep :: "char \<Rightarrow> bool" where
  "is_sep c = (c = CHR ''/'' \<or> c = CHR 0x5C)"

text \<open>
  The characters \<open>.\<close> does not match and \<open>^\<close>, \<open>$\<close> recognise under the
  \<open>m\<close> flag: line feed and carriage return (the separators U+2028 and U+2029 are
  not single characters of a byte string).
\<close>

definition line_terminator :: "char \<Rightarrow> bool" where
  "line_terminator c = (c = CHR 0x0A \<or> c = CHR 0x0D)"

definition starts_with :: "string \<Rightarrow> string \<Rightarrow> bool" where
  "starts_with p s = (take (length p) s = p)"

text \<open>
  The group \<open>([^\/\\]+\.png)\<close> tried at the head of \<open>s\<close>: the greedy run of
  non-separator characters, given back one character at a time until \<open>.png\<close>
  follows, with at least one character left before it.
\<close>

definition png_group :: "string \<Rightarrow> string option" where
  "png_group s =
     (let run = takeWhile (\<lambda>c. \<not> is_sep c) s
      in case filter (\<lambda>j. take 4 (drop j run) = ''.png'') (rev [1 ..< length run]) of
           [] \<Rightarrow> None
         | j # _ \<Rightarrow> Some (take (j + 4) run))"

text \<open>
  The lazy \<open>.*?\<close> followed by the group: the group is tried first where the text
  stands, then after each further character that is not a line terminator.
\<close>

fun lazy_then_group :: "string \<Rightarrow> string option" where
  "lazy_then_group [] = None"
| "lazy_then_group (c # cs) =
     (case png_group (c # cs) of
        Some g \<Rightarrow> Some g
      | None \<Rightarrow> if line_terminator c then None else lazy_then_group cs)"

text \<open>
  \<open>logMessage.match(/Taking screenshot and saving to:.*?([^\/\\]+\.png)/)\<close>: the
  leftmost position of the literal from which the rest matches; the value is
  \<open>match[1]\<close>.
\<close>

fun screenshot_log_match :: "string \<Rightarrow> string option" where
  "screenshot_log_match [] = None"
| "screenshot_log_match (c # cs) =
     (if starts_with ''Taking screenshot and saving to:'' (c # cs)
      then (case lazy_then_group (drop (length ''Taking screenshot and saving to:'') (c # cs)) of
              Some g \<Rightarrow> Some g
            | None \<Rightarrow> screenshot_log_match cs)
      else screenshot_log_match cs)"

text \<open>\<open>result.screenshotPath.match(/([^\/\\]+)$/)\<close>: the text after the last separator.\<close>

definition last_segment :: "string \<Rightarrow> string option" where
  "last_segment s =
     (let seg = rev (takeWhile (\<lambda>c. \<not> is_sep c) (rev s))
      in if seg = [] then None else Some seg)"

text \<open>
  The events written to the stream. A failed \<open>complete\<close> event carries the value of
  \<open>error.message\<close> (\<open>JSON.stringify\<close> leaves the key out when it is
  \<open>undefined\<close>) and the output text.
\<close>

datatype event =
    StatusEvent string string
  | LogEvent string
  | CompleteOk string jsval "string option" string
  | CompleteFail jsval string

fun is_complete :: "event \<Rightarrow> bool" where
  "is_complete (CompleteOk output result screenshotFilename time) = True"
| "is_complete (CompleteFail err output) = True"
| "is_complete e = False"

fun is_log :: "event \<Rightarrow> bool" where
  "is_log (LogEvent m) = True"
| "is_log e = False"

text \<open>The \<open>success\<close> field of a terminal event.\<close>

fun event_success :: "event \<Rightarrow> bool" where
  "event_success (CompleteOk output result screenshotFilename time) = True"
| "event_success e = False"

text \<open>
  The handler's mutable locals and the response stream: \<open>logs\<close>,
  \<open>screenshotFilename\<close>, and the events written by \<open>sendEvent\<close> so far.
\<close>

record capture =
  cap_logs :: "string list"
  cap_screenshotFilename :: "string option"
  cap_sent :: "event list"

text \<open>
  \<open>logCapture\<close> for one call whose arguments join to \<open>logMessage\<close>. A line that
  holds the literal but does not match leaves the filename as it was.
\<close>

definition logCapture :: "capture \<Rightarrow> string \<Rightarrow> capture" where
  "logCapture c logMessage =
     \<lparr> cap_logs = cap_logs c @ [logMessage],
       cap_screenshotFilename =
         (case screenshot_log_match logMessage of
            Some f \<Rightarrow> Some f
          | None \<Rightarrow> cap_screenshotFilename c),
       cap_sent = cap_sent c @ [LogEvent logMessage] \<rparr>"

fun join_lines :: "string list \<Rightarrow> string" where
  "join_lines [] = []"
| "join_lines [l] = l"
| "join_lines (l # ls) = l @ [CHR 0x0A] @ join_lines ls"


section \<open>Run coordinator: POST /api/run-automation (server.cjs)\<close>

text \<open>
  What executing the submitted script does, as far as the handler can observe it: the
  \<open>Function\<close> constructor rejects the text (\<open>NoParse\<close>), or the wrapper runs,
  makes its \<open>console\<close> calls in order (each given by its joined message text) and
  then resolves with a value, rejects with a value (what the script threw), or never
  settles. Console calls a
  script makes after its \<open>run\<close> has settled are not part of this description, and
  the file system calls of lines 176-187 are taken to succeed.
\<close>

datatype settle = Resolves jsval | Rejects jsval | Pending

datatype script_behaviour = NoParse string | Runs "string list" settle

record request =
  req_id :: string
  req_name :: string
  req_script :: string

text \<open>
  How the handler leaves the response: \<open>res.end()\<close> was called; the handler
  returned or is suspended without ending the stream; or the outer \<open>catch\<close> ran
  \<open>res.status(500).json(...)\<close> for the error that reached it, on the stream
  already opened: nothing more is written and the stream is not ended.
\<close>

datatype stream_end = Ended | LeftOpen | Json500 error

datatype response = BadRequest400 | Stream "event list" stream_end

definition run_output :: "run_env \<Rightarrow> string list \<Rightarrow> jsval \<Rightarrow> string" where
  "run_output env lines result =
     join_lines lines @ [CHR 0x0A] @ ''Total execution time: '' @ executionTime env
       @ '' seconds'' @ [CHR 0x0A, CHR 0x0A]
       @ ''Returned result: '' @ stringify_pretty env result"

text \<open>The text of \<open>${v}\<close> in a template literal.\<close>

definition template_text :: "run_env \<Rightarrow> jsval \<Rightarrow> string" where
  "template_text env v =
     (case v of
        JStr s \<Rightarrow> s
      | JUndefined \<Rightarrow> ''undefined''
      | JNull \<Rightarrow> ''null''
      | JBool b \<Rightarrow> (if b then ''true'' else ''false'')
      | _ \<Rightarrow> to_string env v)"

text \<open>
  The log entry of a failed run: the error message \<open>m\<close>, then the captured lines.
\<close>

definition failed_log :: "run_env \<Rightarrow> request \<Rightarrow> automation_row \<Rightarrow> jsval \<Rightarrow> string list \<Rightarrow> log_row" where
  "failed_log env req a m lines =
     \<lparr> log_id = faillog_now_id env,
       log_automationId = req_id req,
       log_automationName = automation_name a,
       log_status = ''failed'',
       log_output = ''Error: '' @ template_text env m @ [CHR 0x0A, CHR 0x0A] @ join_lines lines,
       log_timestamp = faillog_now_iso env \<rparr>"

text \<open>The log entry of a completed run.\<close>

definition completed_log :: "run_env \<Rightarrow> request \<Rightarrow> automation_row \<Rightarrow> string list \<Rightarrow> jsval \<Rightarrow> log_row" where
  "completed_log env req a lines result =
     \<lparr> log_id = log_now_id env,
       log_automationId = req_id req,
       log_automationName = automation_name a,
       log_status = ''completed'',
       log_output = run_output env lines result,
       log_timestamp = log_now_iso env \<rparr>"

text \<open>
  The inner \<open>catch\<close> (lines 324-351): the status update, the log entry and the
  terminal event of a failed run. The object handed to \<open>LogModel.create\<close> reads
  \<open>automation.name\<close> and then \<open>error.message\<close>; when either read throws, or the
  insert does, the error leaves the \<open>catch\<close> for the outer one.
\<close>

definition failure_path ::
  "run_env \<Rightarrow> request \<Rightarrow> error \<Rightarrow> capture \<Rightarrow> database \<Rightarrow> response \<times> database" where
  "failure_path env req err cap db =
     (let db1 = AutomationModel_updateStatus (req_id req) ''failed'' (failed_iso env) db
      in case AutomationModel_getById (req_id req) db1 of
           None \<Rightarrow>
             (Stream (cap_sent cap)
                (Json500 (TypeError ''Cannot read properties of undefined'')), db1)
         | Some automation \<Rightarrow>
             (case message err of
                Inl e \<Rightarrow> (Stream (cap_sent cap) (Json500 e), db1)
              | Inr m \<Rightarrow>
                  (case LogModel_create (failed_log env req automation m (cap_logs cap)) db1 of
                     Inl e \<Rightarrow> (Stream (cap_sent cap) (Json500 e), db1)
                   | Inr db2 \<Rightarrow>
                       (Stream (cap_sent cap @
                                  [CompleteFail m (''Error: '' @ template_text env m)])
                          Ended, db2))))"

text \<open>
  Lines 211-219: the filename from \<open>result.screenshotPath\<close>, used only when no
  filename was captured from the logs. A truthy \<open>screenshotPath\<close> that is not a
  string has no \<open>match\<close> method, and the call throws.
\<close>

definition result_screenshot :: "jsval \<Rightarrow> string option \<Rightarrow> error + string option" where
  "result_screenshot result screenshotFilename =
     (if truthy result \<and> truthy (getprop result ''screenshotPath'') \<and> screenshotFilename = None
      then (case getprop result ''screenshotPath'' of
              JStr p \<Rightarrow> Inr (last_segment p)
            | _ \<Rightarrow> Inl (TypeError ''result.screenshotPath.match is not a function''))
      else Inr screenshotFilename)"

definition screenshot_name :: "run_env \<Rightarrow> automation_row \<Rightarrow> jsval \<Rightarrow> jsval" where
  "screenshot_name env automation result =
     (if truthy (getprop result ''screenshotName'') then getprop result ''screenshotName''
      else if typeof_object (getprop result ''screenshot'')
              \<and> truthy (getprop (getprop result ''screenshot'') ''name'')
      then getprop (getprop result ''screenshot'') ''name''
      else if typeof_string (getprop result ''screenshot'') then getprop result ''screenshot''
      else JStr (''Screenshot for '' @ automation_name automation @ '' at '' @ shot_locale env))"

definition screenshot_data :: "run_env \<Rightarrow> automation_row \<Rightarrow> jsval \<Rightarrow> jsval" where
  "screenshot_data env automation result =
     (if typeof_object (getprop result ''screenshot'') then getprop result ''screenshot''
      else JObj [(''name'', screenshot_name env automation result),
                 (''timestamp'', JStr (shot_iso env)),
                 (''format'', JStr ''png''),
                 (''source'', JStr (automation_name automation))])"

text \<open>
  Lines 221-296, "Store automation results in the database". \<open>None\<close> is the
  \<open>return\<close> of line 228, which leaves the handler.
\<close>

definition store_results :: "run_env \<Rightarrow> request \<Rightarrow> jsval \<Rightarrow> database \<Rightarrow> database option" where
  "store_results env req result db =
     (if truthy result
      then (case AutomationModel_getById (req_id req) db of
              None \<Rightarrow> None
            | Some automation \<Rightarrow>
                if truthy (getprop result ''screenshot'')
                then Some (snd (OutputModel_saveOutput env (req_id req)
                                  (JStr (stringify env (screenshot_data env automation result)))
                                  (screenshot_name env automation result)
                                  ''screenshot'' db))
                else Some db)
      else Some db)"

text \<open>
  Lines 298-323: the status update, the log entry and the terminal event of a run whose
  script resolved.
\<close>

definition finish_run ::
  "run_env \<Rightarrow> request \<Rightarrow> jsval \<Rightarrow> string option \<Rightarrow> capture \<Rightarrow> database \<Rightarrow> response \<times> database" where
  "finish_run env req result screenshotFilename cap db2 =
     (let db3 = AutomationModel_updateStatus (req_id req) ''completed'' (completed_iso env) db2
      in case AutomationModel_getById (req_id req) db3 of
           None \<Rightarrow>
             failure_path env req (TypeError ''Cannot read properties of undefined'') cap db3
         | Some automation \<Rightarrow>
             (case LogModel_create
                     (completed_log env req automation (cap_logs cap) result) db3 of
                Inl err \<Rightarrow> failure_path env req err cap db3
              | Inr db4 \<Rightarrow>
                  (Stream (cap_sent cap @
                             [CompleteOk (run_output env (cap_logs cap) result) result
                                screenshotFilename (executionTime env)])
                     Ended, db4)))"

definition success_path ::
  "run_env \<Rightarrow> request \<Rightarrow> jsval \<Rightarrow> capture \<Rightarrow> database \<Rightarrow> response \<times> database" where
  "success_path env req result cap db =
     (case result_screenshot result (cap_screenshotFilename cap) of
        Inl err \<Rightarrow> failure_path env req err cap db
      | Inr screenshotFilename \<Rightarrow>
          (case store_results env req result db of
             None \<Rightarrow> (Stream (cap_sent cap) LeftOpen, db)
           | Some db2 \<Rightarrow> finish_run env req result screenshotFilename cap db2))"

definition run_automation ::
  "run_env \<Rightarrow> request \<Rightarrow> script_behaviour \<Rightarrow> database \<Rightarrow> response \<times> database" where
  "run_automation env req behaviour db =
     (if req_script req = [] then (BadRequest400, db)
      else (let started = \<lparr> cap_logs = [], cap_screenshotFilename = None,
                             cap_sent = [StatusEvent ''running'' ''Starting automation...''] \<rparr>
            in case behaviour of
                 NoParse m \<Rightarrow> (Stream (cap_sent started) (Json500 (SyntaxError m)), db)
               | Runs calls settled \<Rightarrow>
                   (let db1 = AutomationModel_updateStatus (req_id req) ''running''
                                (running_iso env) db;
                        cap = foldl logCapture started calls
                    in case settled of
                         Pending \<Rightarrow> (Stream (cap_sent cap) LeftOpen, db1)
                       | Rejects v \<Rightarrow> failure_path env req (Thrown v) cap db1
                       | Resolves result \<Rightarrow> success_path env req result cap db1)))"

text \<open>The filename hint scraped from the log lines: the last line that matches wins.\<close>

definition scraped_hint :: "string list \<Rightarrow> string option" where
  "scraped_hint calls =
     foldl (\<lambda>h l. case screenshot_log_match l of Some f \<Rightarrow> Some f | None \<Rightarrow> h) None calls"

text \<open>The terminal event of a response, when its last event is a \<open>complete\<close> event.\<close>

definition terminal :: "response \<Rightarrow> event option" where
  "terminal r =
     (case r of
        BadRequest400 \<Rightarrow> None
      | Stream evs e \<Rightarrow>
          if evs = [] then None
          else if is_complete (last evs) then Some (last evs) else None)"

fun complete_screenshotFilename :: "event \<Rightarrow> string option" where
  "complete_screenshotFilename (CompleteOk output result screenshotFilename time) = screenshotFilename"
| "complete_screenshotFilename e = None"

text \<open>The status column of the automation's row.\<close>

definition status_of :: "string \<Rightarrow> database \<Rightarrow> string option" where
  "status_of i db = map_option automation_status (AutomationModel_getById i db)"

text \<open>A runtime and clock for the concrete runs below.\<close>

definition demo_env :: run_env where
  "demo_env =
     \<lparr> stringify = (\<lambda>v. ''{...}''),
       stringify_pretty = (\<lambda>v. ''{...}''),
       to_string = (\<lambda>v. ''[object Object]''),
       sql_text = (\<lambda>v. case v of JStr s \<Rightarrow> Some s | _ \<Rightarrow> None),
       executionTime = ''0.10'',
       running_iso = ''2024-06-22T10:00:00.000Z'',
       completed_iso = ''2024-06-22T10:00:00.100Z'',
       failed_iso = ''2024-06-22T10:00:00.101Z'',
       shot_iso = ''2024-06-22T10:00:00.100Z'',
       shot_locale = ''6/22/2024, 10:00:00 AM'',
       output_now_id = ''1719050400100'',
       output_now_iso = ''2024-06-22T10:00:00.100Z'',
       log_now_id = ''1719050400100'',
       log_now_iso = ''2024-06-22T10:00:00.100Z'',
       faillog_now_id = ''1719050400101'',
       faillog_now_iso = ''2024-06-22T10:00:00.101Z'' \<rparr>"

definition demo_automation :: automation_row where
  "demo_automation =
     \<lparr> automation_id = ''1'', automation_name = ''Wikipedia Apples Search'',
       automation_description = '''', automation_script = ''async function run() {}'',
       automation_status = ''idle'', automation_createdAt = ''2024-06-01T00:00:00.000Z'',
       automation_updatedAt = ''2024-06-01T00:00:00.000Z'' \<rparr>"

definition demo_db :: database where
  "demo_db = \<lparr> automations = [demo_automation], logs = [], outputs = [] \<rparr>"

definition demo_request :: request where
  "demo_request = \<lparr> req_id = ''1'', req_name = ''Wikipedia Apples Search'',
                     req_script = ''async function run() {}'' \<rparr>"

text \<open>A request for an automation id that has no row in the automations table.\<close>

definition ghost_request :: request where
  "ghost_request = \<lparr> req_id = ''ghost'', req_name = ''Ghost'',
                      req_script = ''async function run() { return {ok: true}; }'' \<rparr>"


section \<open>Run coordinator: basic facts\<close>

lemma foldl_logCapture_logs: "cap_logs (foldl logCapture c ls) = cap_logs c @ ls"
  by (induction ls arbitrary: c) (simp_all add: logCapture_def)

lemma foldl_logCapture_sent: "cap_sent (foldl logCapture c ls) = cap_sent c @ map LogEvent ls"
  by (induction ls arbitrary: c) (simp_all add: logCapture_def)

lemma foldl_logCapture_hint:
  "cap_screenshotFilename (foldl logCapture c ls) =
     foldl (\<lambda>h l. case screenshot_log_match l of Some f \<Rightarrow> Some f | None \<Rightarrow> h)
       (cap_screenshotFilename c) ls"
  by (induction ls arbitrary: c) (simp_all add: logCapture_def)

lemma find_map_same_id:
  assumes "\<And>a. automation_id (f a) = automation_id a"
  shows "find (\<lambda>a. automation_id a = i) (map f xs) = map_option f (find (\<lambda>a. automation_id a = i) xs)"
  by (induction xs) (simp_all add: assms)

lemma getById_updateStatus:
  "AutomationModel_getById i (AutomationModel_updateStatus j s now db) =
     map_option (\<lambda>a. if automation_id a = j
                      then a\<lparr> automation_status := s, automation_updatedAt := now \<rparr> else a)
       (AutomationModel_getById i db)"
  unfolding AutomationModel_getById_def AutomationModel_updateStatus_def
  by (simp add: find_map_same_id)

lemma updateStatus_frame:
  "logs (AutomationModel_updateStatus j s now db) = logs db"
  "outputs (AutomationModel_updateStatus j s now db) = outputs db"
  "map automation_id (automations (AutomationModel_updateStatus j s now db)) =
     map automation_id (automations db)"
  by (simp_all add: AutomationModel_updateStatus_def comp_def)

lemma getById_Some_id:
  "AutomationModel_getById i db = Some a \<Longrightarrow> i \<in> set (map automation_id (automations db))"
  by (auto simp: AutomationModel_getById_def find_Some_iff)

lemma getById_Some_key:
  "AutomationModel_getById i db = Some a \<Longrightarrow> automation_id a = i"
  by (auto simp: AutomationModel_getById_def find_Some_iff)

lemma getById_updateStatus_Some:
  assumes "AutomationModel_getById i db = Some a"
  shows "AutomationModel_getById i (AutomationModel_updateStatus i s now db) =
           Some (a\<lparr> automation_status := s, automation_updatedAt := now \<rparr>)"
  using getById_Some_key [OF assms] by (simp add: getById_updateStatus assms)

lemma getById_None_id:
  "AutomationModel_getById i db = None \<Longrightarrow> i \<notin> set (map automation_id (automations db))"
  by (auto simp: AutomationModel_getById_def find_None_iff)

lemma getById_same_automations:
  "automations db' = automations db \<Longrightarrow>
   AutomationModel_getById i db' = AutomationModel_getById i db"
  by (simp add: AutomationModel_getById_def)

lemma create_Inr:
  assumes "OutputModel_create env obj db = Inr (row, db')"
  shows "automations db' = automations db" and "logs db' = logs db"
    and "outputs db' = outputs db @ [row]"
    and "output_type row = obj_type obj" and "output_id row = obj_id obj"
proof -
  from assms obtain name where n: "sql_text env (obj_name obj) = Some name"
    by (cases "sql_text env (obj_name obj)") (simp_all add: OutputModel_create_def)
  from assms n have r: "row = \<lparr> output_id = obj_id obj,
                             output_automationId = obj_automationId obj,
                             output_name = name,
                             output_type = obj_type obj,
                             output_data = obj_data obj,
                             output_timestamp = obj_timestamp obj \<rparr>"
    and d: "db' = db\<lparr> outputs := outputs db @ [row] \<rparr>"
    by (auto simp: OutputModel_create_def Let_def split: if_splits)
  from d show "automations db' = automations db" and "logs db' = logs db"
    and "outputs db' = outputs db @ [row]" by simp_all
  from r show "output_type row = obj_type obj" and "output_id row = obj_id obj" by simp_all
qed

lemma saveOutput_frame:
  "automations (snd (OutputModel_saveOutput env aid d n t db)) = automations db"
  "logs (snd (OutputModel_saveOutput env aid d n t db)) = logs db"
proof -
  let ?obj = "\<lparr> obj_id = output_now_id env, obj_automationId = aid, obj_name = n, obj_type = t,
                 obj_data = (case d of JStr s \<Rightarrow> s | _ \<Rightarrow> stringify env d),
                 obj_timestamp = output_now_iso env \<rparr>"
  have s: "snd (OutputModel_saveOutput env aid d n t db) =
             (case OutputModel_create env ?obj db of Inl err \<Rightarrow> db | Inr (row, db') \<Rightarrow> db')"
    by (simp add: OutputModel_saveOutput_def Let_def split: sum.splits prod.splits)
  show "automations (snd (OutputModel_saveOutput env aid d n t db)) = automations db"
    unfolding s by (cases "OutputModel_create env ?obj db") (auto dest: create_Inr(1))
  show "logs (snd (OutputModel_saveOutput env aid d n t db)) = logs db"
    unfolding s by (cases "OutputModel_create env ?obj db") (auto dest: create_Inr(2))
qed

lemma store_results_frame:
  assumes "store_results env req result db = Some db2"
  shows "automations db2 = automations db" and "logs db2 = logs db"
  using assms
  by (auto simp: store_results_def saveOutput_frame split: if_splits option.splits)


lemma store_results_None:
  "store_results env req result db = None \<longleftrightarrow>
     (truthy result \<and> AutomationModel_getById (req_id req) db = None)"
  by (simp add: store_results_def split: option.splits)

lemma failure_path_completes:
  assumes a: "AutomationModel_getById (req_id req) db = Some a"
      and fresh: "faillog_now_id env \<notin> set (map log_id (logs db))"
      and msg: "message err = Inr m"
  shows "failure_path env req err cap db =
           (Stream (cap_sent cap @ [CompleteFail m (''Error: '' @ template_text env m)]) Ended,
            (AutomationModel_updateStatus (req_id req) ''failed'' (failed_iso env) db)
              \<lparr> logs := logs db @ [failed_log env req a m (cap_logs cap)] \<rparr>)"
proof -
  let ?db1 = "AutomationModel_updateStatus (req_id req) ''failed'' (failed_iso env) db"
  have g: "AutomationModel_getById (req_id req) ?db1 =
             Some (a\<lparr> automation_status := ''failed'', automation_updatedAt := failed_iso env \<rparr>)"
    using a by (rule getById_updateStatus_Some)
  have fk: "req_id req \<in> set (map automation_id (automations ?db1))"
    using g by (rule getById_Some_id)
  have c: "LogModel_create (failed_log env req a m (cap_logs cap)) ?db1 =
             Inr (?db1\<lparr> logs := logs db @ [failed_log env req a m (cap_logs cap)] \<rparr>)"
    using fresh fk unfolding LogModel_create_def
    by (simp add: updateStatus_frame failed_log_def)
  show ?thesis
    unfolding failure_path_def Let_def g msg using c
    by (simp add: failed_log_def)
qed

lemma failure_path_no_automation:
  assumes "AutomationModel_getById (req_id req) db = None"
  shows "failure_path env req err cap db =
           (Stream (cap_sent cap) (Json500 (TypeError ''Cannot read properties of undefined'')),
            AutomationModel_updateStatus (req_id req) ''failed'' (failed_iso env) db)"
proof -
  have g: "AutomationModel_getById (req_id req)
             (AutomationModel_updateStatus (req_id req) ''failed'' (failed_iso env) db) = None"
    using assms by (simp only: getById_updateStatus option.map)
  show ?thesis
    unfolding failure_path_def Let_def g by simp
qed

text \<open>
  An error whose \<open>message\<close> cannot be read: the status is set to \<open>failed\<close>, no
  log entry and no terminal event are written, and the stream is not ended.
\<close>

lemma failure_path_unreadable_error:
  assumes a: "AutomationModel_getById (req_id req) db = Some a"
      and msg: "message err = Inl e"
  shows "failure_path env req err cap db =
           (Stream (cap_sent cap) (Json500 e),
            AutomationModel_updateStatus (req_id req) ''failed'' (failed_iso env) db)"
proof -
  have g: "AutomationModel_getById (req_id req)
             (AutomationModel_updateStatus (req_id req) ''failed'' (failed_iso env) db) =
             Some (a\<lparr> automation_status := ''failed'', automation_updatedAt := failed_iso env \<rparr>)"
    using a by (rule getById_updateStatus_Some)
  show ?thesis
    unfolding failure_path_def Let_def g msg by simp
qed


lemma message_Thrown:
  "v \<noteq> JUndefined \<Longrightarrow> v \<noteq> JNull \<Longrightarrow> message (Thrown v) = Inr (getprop v ''message'')"
  by simp



section \<open>The event stream of a run\<close>

lemma success_path_throws:
  "result_screenshot result (cap_screenshotFilename cap) = Inl err \<Longrightarrow>
   success_path env req result cap db = failure_path env req err cap db"
  by (simp add: success_path_def)

lemma run_automation_Runs:
  assumes "req_script req \<noteq> []"
  shows "run_automation env req (Runs calls settled) db =
           (case settled of
              Pending \<Rightarrow>
                (Stream (StatusEvent ''running'' ''Starting automation...'' # map LogEvent calls)
                   LeftOpen,
                 AutomationModel_updateStatus (req_id req) ''running'' (running_iso env) db)
            | Rejects m \<Rightarrow>
                failure_path env req (Thrown m)
                  (foldl logCapture
                     \<lparr> cap_logs = [], cap_screenshotFilename = None,
                       cap_sent = [StatusEvent ''running'' ''Starting automation...''] \<rparr> calls)
                  (AutomationModel_updateStatus (req_id req) ''running'' (running_iso env) db)
            | Resolves result \<Rightarrow>
                success_path env req result
                  (foldl logCapture
                     \<lparr> cap_logs = [], cap_screenshotFilename = None,
                       cap_sent = [StatusEvent ''running'' ''Starting automation...''] \<rparr> calls)
                  (AutomationModel_updateStatus (req_id req) ''running'' (running_iso env) db))"
  using assms
  by (simp add: run_automation_def Let_def foldl_logCapture_sent split: settle.splits)



lemma last_sent_not_complete:
  "\<not> is_complete (last (StatusEvent s m # map LogEvent calls))"
  by (induction calls rule: rev_induct) simp_all

lemma terminal_open:
  "terminal (Stream (StatusEvent s m # map LogEvent calls) e) = None"
  using last_sent_not_complete [of s m calls] by (simp add: terminal_def)

text \<open>
  A script that throws a value other than \<open>undefined\<close> and \<open>null\<close>, for an
  automation that has its row: the terminal event carries the value's message, and the
  one log entry written has status \<open>failed\<close> and an output made of the error message
  followed by the captured log lines.
\<close>

lemma run_rejects_log_entry:
  assumes script: "req_script req \<noteq> []"
      and a: "AutomationModel_getById (req_id req) db = Some a"
      and ffresh: "faillog_now_id env \<notin> set (map log_id (logs db))"
      and v: "v \<noteq> JUndefined" "v \<noteq> JNull"
  shows "fst (run_automation env req (Runs calls (Rejects v)) db) =
           Stream (StatusEvent ''running'' ''Starting automation...'' # map LogEvent calls @
                     [CompleteFail (getprop v ''message'')
                        (''Error: '' @ template_text env (getprop v ''message''))]) Ended \<and>
         logs (snd (run_automation env req (Runs calls (Rejects v)) db)) =
           logs db @
             [\<lparr> log_id = faillog_now_id env,
                log_automationId = req_id req,
                log_automationName = automation_name a,
                log_status = ''failed'',
                log_output = ''Error: '' @ template_text env (getprop v ''message'')
                               @ [CHR 0x0A, CHR 0x0A] @ join_lines calls,
                log_timestamp = faillog_now_iso env \<rparr>]"
proof -
  define db1 where "db1 = AutomationModel_updateStatus (req_id req) ''running'' (running_iso env) db"
  define a1 where "a1 = a\<lparr> automation_status := ''running'', automation_updatedAt := running_iso env \<rparr>"
  define cap where "cap = foldl logCapture
                \<lparr> cap_logs = [], cap_screenshotFilename = None,
                  cap_sent = [StatusEvent ''running'' ''Starting automation...''] \<rparr> calls"
  have a1: "AutomationModel_getById (req_id req) db1 = Some a1"
    unfolding db1_def a1_def using a by (rule getById_updateStatus_Some)
  have l1: "logs db1 = logs db"
    by (simp add: db1_def updateStatus_frame)
  have f: "faillog_now_id env \<notin> set (map log_id (logs db1))"
    unfolding l1 by (rule ffresh)
  have sent: "cap_sent cap = StatusEvent ''running'' ''Starting automation...'' # map LogEvent calls"
    by (simp add: cap_def foldl_logCapture_sent)
  have lines: "cap_logs cap = calls"
    by (simp add: cap_def foldl_logCapture_logs)
  have m: "message (Thrown v) = Inr (getprop v ''message'')"
    using v by (rule message_Thrown)
  have r: "run_automation env req (Runs calls (Rejects v)) db =
             failure_path env req (Thrown v) cap db1"
    unfolding db1_def cap_def using run_automation_Runs [OF script, of env calls "Rejects v" db]
    by simp
  show ?thesis
    unfolding r failure_path_completes [OF a1 f m]
    by (simp add: sent lines l1 failed_log_def a1_def)
qed

text \<open>
  A script that throws \<open>undefined\<close> or \<open>null\<close> (\<open>throw undefined\<close>, a bare
  \<open>Promise.reject()\<close>), for an automation that has its row: reading
  \<open>error.message\<close> throws inside the \<open>catch\<close>, so the status is set to \<open>failed\<close>
  but no log entry and no terminal event are written, and the stream is not ended.
\<close>

lemma run_rejects_nullish:
  assumes script: "req_script req \<noteq> []"
      and a: "AutomationModel_getById (req_id req) db = Some a"
      and v: "v = JUndefined \<or> v = JNull"
  shows "fst (run_automation env req (Runs calls (Rejects v)) db) =
           Stream (StatusEvent ''running'' ''Starting automation...'' # map LogEvent calls)
             (Json500 (TypeError ''Cannot read properties of undefined'')) \<and>
         terminal (fst (run_automation env req (Runs calls (Rejects v)) db)) = None \<and>
         logs (snd (run_automation env req (Runs calls (Rejects v)) db)) = logs db \<and>
         status_of (req_id req) (snd (run_automation env req (Runs calls (Rejects v)) db)) =
           Some ''failed''"
proof -
  define db1 where "db1 = AutomationModel_updateStatus (req_id req) ''running'' (running_iso env) db"
  define a1 where "a1 = a\<lparr> automation_status := ''running'', automation_updatedAt := running_iso env \<rparr>"
  define cap where "cap = foldl logCapture
                \<lparr> cap_logs = [], cap_screenshotFilename = None,
                  cap_sent = [StatusEvent ''running'' ''Starting automation...''] \<rparr> calls"
  have a1: "AutomationModel_getById (req_id req) db1 = Some a1"
    unfolding db1_def a1_def using a by (rule getById_updateStatus_Some)
  have l1: "logs db1 = logs db"
    by (simp add: db1_def updateStatus_frame)
  have sent: "cap_sent cap = StatusEvent ''running'' ''Starting automation...'' # map LogEvent calls"
    by (simp add: cap_def foldl_logCapture_sent)
  have m: "message (Thrown v) = Inl (TypeError ''Cannot read properties of undefined'')"
    using v by auto
  have r: "run_automation env req (Runs calls (Rejects v)) db =
             failure_path env req (Thrown v) cap db1"
    unfolding db1_def cap_def using run_automation_Runs [OF script, of env calls "Rejects v" db]
    by simp
  have st: "status_of (req_id req)
              (AutomationModel_updateStatus (req_id req) ''failed'' (failed_iso env) db1) =
              Some ''failed''"
    using getById_updateStatus_Some [OF a1, of "''failed''" "failed_iso env"]
    by (simp add: status_of_def)
  show ?thesis
    unfolding r failure_path_unreadable_error [OF a1 m]
    using st by (simp add: sent terminal_open l1 updateStatus_frame)
qed

text \<open>
  A run for an automation id that has no row: whatever the script does, no terminal
  event is written and no log entry is created.
\<close>

lemma run_without_automation:
  assumes none: "AutomationModel_getById (req_id req) db = None"
  shows "terminal (fst (run_automation env req behaviour db)) = None \<and>
         logs (snd (run_automation env req behaviour db)) = logs db"
proof (cases "req_script req = []")
  case True
  then show ?thesis by (simp add: run_automation_def terminal_def)
next
  case script: False
  define db1 where "db1 = AutomationModel_updateStatus (req_id req) ''running'' (running_iso env) db"
  define cap where "cap calls = foldl logCapture
                \<lparr> cap_logs = [], cap_screenshotFilename = None,
                  cap_sent = [StatusEvent ''running'' ''Starting automation...''] \<rparr> calls" for calls
  have n1: "AutomationModel_getById (req_id req) db1 = None"
    using none by (simp add: db1_def getById_updateStatus)
  have l1: "logs db1 = logs db"
    by (simp add: db1_def updateStatus_frame)
  have sent: "cap_sent (cap calls) =
                StatusEvent ''running'' ''Starting automation...'' # map LogEvent calls" for calls
    by (simp add: cap_def foldl_logCapture_sent)
  have open_stream: "terminal (Stream (cap_sent (cap calls)) e) = None" for calls e
    unfolding sent using last_sent_not_complete [of "''running''" "''Starting automation...''" calls]
    by (simp add: terminal_def)
  have failing: "terminal (fst (failure_path env req err (cap calls) d)) = None \<and>
                 logs (snd (failure_path env req err (cap calls) d)) = logs d"
    if "AutomationModel_getById (req_id req) d = None" for err calls d
    unfolding failure_path_no_automation [OF that]
    using open_stream by (simp add: updateStatus_frame)
  show ?thesis
  proof (cases behaviour)
    case (NoParse m)
    then show ?thesis
      using script by (simp add: run_automation_def terminal_def)
  next
    case (Runs calls settled)
    have run: "run_automation env req (Runs calls settled) db =
               (case settled of
                  Pending \<Rightarrow> (Stream (StatusEvent ''running'' ''Starting automation...'' #
                                         map LogEvent calls) LeftOpen, db1)
                | Rejects m \<Rightarrow> failure_path env req (Thrown m) (cap calls) db1
                | Resolves result \<Rightarrow> success_path env req result (cap calls) db1)"
      unfolding db1_def cap_def by (rule run_automation_Runs [OF script])
    show ?thesis
    proof (cases settled)
      case Pending
      then show ?thesis
        using run open_stream [of calls LeftOpen] l1 by (simp add: Runs sent)
    next
      case (Rejects m)
      then show ?thesis
        using run failing [OF n1, of "Thrown m" calls] l1 by (simp add: Runs)
    next
      case (Resolves result)
      have r: "run_automation env req behaviour db = success_path env req result (cap calls) db1"
        using run by (simp add: Runs Resolves)
      show ?thesis
      proof (cases "result_screenshot result (cap_screenshotFilename (cap calls))")
        case (Inl err)
        show ?thesis
          unfolding r success_path_throws [OF Inl]
          using failing [OF n1, of err calls] l1 by simp
      next
        case (Inr sf)
        show ?thesis
        proof (cases "truthy result")
          case True
          then have "store_results env req result db1 = None"
            using n1 by (simp add: store_results_None)
          then show ?thesis
            unfolding r using Inr open_stream [of calls LeftOpen] l1
            by (simp add: success_path_def)
        next
          case False
          define db3 where "db3 = AutomationModel_updateStatus (req_id req) ''completed''
                                    (completed_iso env) db1"
          have n3: "AutomationModel_getById (req_id req) db3 = None"
            using n1 by (simp add: db3_def getById_updateStatus)
          have l3: "logs db3 = logs db"
            by (simp add: db3_def updateStatus_frame l1)
          have "success_path env req result (cap calls) db1 =
                  failure_path env req (TypeError ''Cannot read properties of undefined'')
                    (cap calls) db3"
            using False Inr n3 by (simp add: success_path_def finish_run_def store_results_def Let_def db3_def)
          then show ?thesis
            unfolding r
            using failing [OF n3, of "TypeError ''Cannot read properties of undefined''" calls] l3
            by simp
        qed
      qed
    qed
  qed
qed





text \<open>
  C2. The claim that every run that terminates leaves exactly one log entry fails on
  the handler for an automation id without a row: the script resolves with a truthy
  value, the guard of line 226 returns from the handler, and neither a log entry nor a
  terminal event is written; the stream is left open.
\<close>

theorem run_ghost_automation_creates_no_log:
  "run_automation demo_env ghost_request
     (Runs [''hi''] (Resolves (JObj [(''ok'', JBool True)]))) demo_db =
     (Stream [StatusEvent ''running'' ''Starting automation...'', LogEvent ''hi''] LeftOpen,
      demo_db) \<and>
   logs demo_db = []"
proof -
  have s: "req_script ghost_request \<noteq> []"
    by (simp add: ghost_request_def)
  have u: "AutomationModel_updateStatus (req_id ghost_request) ''running''
             (running_iso demo_env) demo_db = demo_db"
    by (simp add: AutomationModel_updateStatus_def ghost_request_def demo_db_def
        demo_automation_def)
  have n: "AutomationModel_getById (req_id ghost_request) demo_db = None"
    by (simp add: AutomationModel_getById_def ghost_request_def demo_db_def demo_automation_def)
  have st: "store_results demo_env ghost_request (JObj [(''ok'', JBool True)]) demo_db = None"
    using n by (simp add: store_results_None)
  have "run_automation demo_env ghost_request
          (Runs [''hi''] (Resolves (JObj [(''ok'', JBool True)]))) demo_db =
        (Stream [StatusEvent ''running'' ''Starting automation...'', LogEvent ''hi''] LeftOpen,
         demo_db)"
    unfolding run_automation_Runs [OF s] u
    using st
    by (simp add: success_path_def result_screenshot_def logCapture_def)
  then show ?thesis
    by (simp add: demo_db_def)
qed


section \<open>Successful runs\<close>

lemma terminal_snoc:
  "is_complete c \<Longrightarrow> terminal (Stream (evs @ [c]) e) = Some c"
  by (simp add: terminal_def)

lemma failure_path_never_succeeds:
  assumes sent: "cap_sent cap = StatusEvent s m # map LogEvent calls"
      and t: "terminal (fst (failure_path env req err cap db)) = Some c"
  shows "\<not> event_success c"
proof -
  define db1 where "db1 = AutomationModel_updateStatus (req_id req) ''failed'' (failed_iso env) db"
  show ?thesis
  proof (cases "AutomationModel_getById (req_id req) db1")
    case None
    then have "fst (failure_path env req err cap db) =
                 Stream (cap_sent cap)
                   (Json500 (TypeError ''Cannot read properties of undefined''))"
      by (simp add: failure_path_def Let_def db1_def)
    with t show ?thesis
      by (simp add: sent terminal_open)
  next
    case (Some a)
    show ?thesis
    proof (cases "message err")
      case (Inl e)
      then have "fst (failure_path env req err cap db) = Stream (cap_sent cap) (Json500 e)"
        using Some by (simp add: failure_path_def Let_def db1_def)
      with t show ?thesis
        by (simp add: sent terminal_open)
    next
      case m: (Inr m)
      define l where "l = failed_log env req a m (cap_logs cap)"
      have fp: "failure_path env req err cap db =
                  (case LogModel_create l db1 of
                     Inl e \<Rightarrow> (Stream (cap_sent cap) (Json500 e), db1)
                   | Inr db2 \<Rightarrow>
                       (Stream (cap_sent cap @
                                  [CompleteFail m (''Error: '' @ template_text env m)])
                          Ended, db2))"
        using Some m unfolding failure_path_def Let_def db1_def l_def by simp
      show ?thesis
      proof (cases "LogModel_create l db1")
        case (Inl e)
        with fp t show ?thesis
          by (simp add: sent terminal_open)
      next
        case (Inr db2)
        with fp t have "c = CompleteFail m (''Error: '' @ template_text env m)"
          by (simp add: terminal_snoc)
        then show ?thesis by simp
      qed
    qed
  qed
qed

text \<open>
  What a run with a successful terminal event went through: the automation has its
  row, the filename step did not throw, the results step did not return, and the
  outputs table is as the results step left it.
\<close>

lemma run_success_cases:
  assumes t: "terminal (fst (run_automation env req (Runs calls (Resolves result)) db)) = Some c"
      and ok: "event_success c"
  shows "\<exists>a sf db2.
           AutomationModel_getById (req_id req) db = Some a \<and>
           result_screenshot result (scraped_hint calls) = Inr sf \<and>
           store_results env req result
             (AutomationModel_updateStatus (req_id req) ''running'' (running_iso env) db) = Some db2 \<and>
           c = CompleteOk (run_output env calls result) result sf (executionTime env) \<and>
           fst (run_automation env req (Runs calls (Resolves result)) db) =
             Stream (StatusEvent ''running'' ''Starting automation...'' # map LogEvent calls @ [c])
               Ended \<and>
           outputs (snd (run_automation env req (Runs calls (Resolves result)) db)) = outputs db2"
proof -
  define db1 where "db1 = AutomationModel_updateStatus (req_id req) ''running'' (running_iso env) db"
  define cap where "cap = foldl logCapture
                \<lparr> cap_logs = [], cap_screenshotFilename = None,
                  cap_sent = [StatusEvent ''running'' ''Starting automation...''] \<rparr> calls"
  have script: "req_script req \<noteq> []"
    using t by (auto simp: run_automation_def terminal_def)
  have sent: "cap_sent cap = StatusEvent ''running'' ''Starting automation...'' # map LogEvent calls"
    by (simp add: cap_def foldl_logCapture_sent)
  have lines: "cap_logs cap = calls"
    by (simp add: cap_def foldl_logCapture_logs)
  have hint: "cap_screenshotFilename cap = scraped_hint calls"
    by (simp add: cap_def foldl_logCapture_hint scraped_hint_def)
  have r: "run_automation env req (Runs calls (Resolves result)) db =
             success_path env req result cap db1"
    unfolding db1_def cap_def using run_automation_Runs [OF script, of env calls "Resolves result" db]
    by simp
  note fail = failure_path_never_succeeds [OF sent]
  show ?thesis
  proof (cases "result_screenshot result (cap_screenshotFilename cap)")
    case (Inl err)
    with t ok r fail [of env req err db1 c] show ?thesis
      by (simp add: success_path_throws)
  next
    case (Inr sf)
    show ?thesis
    proof (cases "store_results env req result db1")
      case None
      with t r Inr show ?thesis
        by (simp add: success_path_def sent terminal_open)
    next
      case (Some db2)
      define db3 where "db3 = AutomationModel_updateStatus (req_id req) ''completed''
                                (completed_iso env) db2"
      show ?thesis
      proof (cases "AutomationModel_getById (req_id req) db3")
        case None
        then have "success_path env req result cap db1 =
                     failure_path env req (TypeError ''Cannot read properties of undefined'')
                       cap db3"
          using Inr Some by (simp add: success_path_def finish_run_def Let_def db3_def)
        with t ok r fail [of env req "TypeError ''Cannot read properties of undefined''" db3 c]
        show ?thesis by simp
      next
        case a3: (Some a3)
        define l where "l = completed_log env req a3 (cap_logs cap) result"
        have sp: "success_path env req result cap db1 =
                    (case LogModel_create l db3 of
                       Inl err \<Rightarrow> failure_path env req err cap db3
                     | Inr db4 \<Rightarrow>
                         (Stream (cap_sent cap @
                                    [CompleteOk (run_output env (cap_logs cap) result) result
                                       sf (executionTime env)]) Ended, db4))"
          using Inr Some a3 unfolding success_path_def finish_run_def Let_def db3_def l_def by simp
        show ?thesis
        proof (cases "LogModel_create l db3")
          case (Inl err)
          with t ok r sp fail [of env req err db3 c] show ?thesis
            by simp
        next
          case (Inr db4)
          have o4: "outputs db4 = outputs db2"
            using Inr by (auto simp: LogModel_create_def db3_def updateStatus_frame
                split: if_splits)
          have ex: "\<exists>a. AutomationModel_getById (req_id req) db = Some a"
          proof (cases "AutomationModel_getById (req_id req) db")
            case None
            then have "AutomationModel_getById (req_id req) db1 = None"
              by (simp add: db1_def getById_updateStatus)
            then have "AutomationModel_getById (req_id req) db2 = None"
              using getById_same_automations [OF store_results_frame(1) [OF Some], of "req_id req"]
              by simp
            then have "AutomationModel_getById (req_id req) db3 = None"
              by (simp add: db3_def getById_updateStatus)
            with a3 show ?thesis by simp
          next
            case (Some a)
            then show ?thesis by blast
          qed
          have c: "c = CompleteOk (run_output env calls result) result sf (executionTime env)"
            using t r sp Inr by (simp add: terminal_snoc lines)
          have f: "fst (run_automation env req (Runs calls (Resolves result)) db) =
                     Stream (StatusEvent ''running'' ''Starting automation...'' #
                               map LogEvent calls @ [c]) Ended"
            using r sp Inr c by (simp add: sent lines)
          have o: "outputs (snd (run_automation env req (Runs calls (Resolves result)) db)) =
                     outputs db2"
            using r sp Inr o4 by simp
          from ex obtain a where a: "AutomationModel_getById (req_id req) db = Some a" ..
          have rs: "result_screenshot result (scraped_hint calls) = Inr sf"
            using \<open>result_screenshot result (cap_screenshotFilename cap) = Inr sf\<close>
            by (simp only: hint)
          show ?thesis
            using a rs Some c f o unfolding db1_def by blast
        qed
      qed
    qed
  qed
qed


section \<open>Artifact writes and the outcome of a run\<close>

text \<open>
  Nothing the run coordinator decides reads the outputs table: replacing the table
  commutes with every step that follows the results step.
\<close>

lemma getById_outputs_update:
  "AutomationModel_getById i (db\<lparr> outputs := X \<rparr>) = AutomationModel_getById i db"
  by (simp add: AutomationModel_getById_def)

lemma updateStatus_outputs_update:
  "AutomationModel_updateStatus i s n (db\<lparr> outputs := X \<rparr>) =
     (AutomationModel_updateStatus i s n db)\<lparr> outputs := X \<rparr>"
  by (simp add: AutomationModel_updateStatus_def)

lemma LogModel_create_outputs_update:
  "LogModel_create l (db\<lparr> outputs := X \<rparr>) =
     (case LogModel_create l db of Inl e \<Rightarrow> Inl e | Inr d \<Rightarrow> Inr (d\<lparr> outputs := X \<rparr>))"
  by (simp add: LogModel_create_def)

lemma failure_path_outputs_update:
  "failure_path env req err cap (db\<lparr> outputs := X \<rparr>) =
     (fst (failure_path env req err cap db),
      (snd (failure_path env req err cap db))\<lparr> outputs := X \<rparr>)"
proof -
  define db1 where "db1 = AutomationModel_updateStatus (req_id req) ''failed'' (failed_iso env) db"
  show ?thesis
  proof (cases "AutomationModel_getById (req_id req) db1")
    case None
    then show ?thesis
      unfolding failure_path_def Let_def updateStatus_outputs_update getById_outputs_update
        db1_def [symmetric]
      by simp
  next
    case (Some a)
    show ?thesis
    proof (cases "message err")
      case (Inl e)
      with Some show ?thesis
        unfolding failure_path_def Let_def updateStatus_outputs_update getById_outputs_update
          db1_def [symmetric]
        by simp
    next
      case m: (Inr m)
      show ?thesis
      proof (cases "LogModel_create (failed_log env req a m (cap_logs cap)) db1")
        case (Inl e)
        with Some m show ?thesis
          unfolding failure_path_def Let_def updateStatus_outputs_update getById_outputs_update
            LogModel_create_outputs_update db1_def [symmetric]
          by simp
      next
        case (Inr d)
        with Some m show ?thesis
          unfolding failure_path_def Let_def updateStatus_outputs_update getById_outputs_update
            LogModel_create_outputs_update db1_def [symmetric]
          by simp
      qed
    qed
  qed
qed

text \<open>The part of the database the outcome of a run is made of.\<close>

definition core :: "database \<Rightarrow> automation_row list \<times> log_row list" where
  "core db = (automations db, logs db)"

lemma same_core_outputs_update:
  "core db' = core db \<Longrightarrow> db' = db\<lparr> outputs := outputs db' \<rparr>"
  by (cases db, cases db') (simp add: core_def)

lemma core_outputs_update: "core (db\<lparr> outputs := X \<rparr>) = core db"
  by (simp add: core_def)

lemma store_results_core:
  "store_results env req result db = Some db2 \<Longrightarrow> core db2 = core db"
  using store_results_frame [of env req result db db2] by (simp add: core_def)

lemma store_results_None_outputs_update:
  "store_results env req result (db\<lparr> outputs := X \<rparr>) = None \<longleftrightarrow>
   store_results env req result db = None"
  by (simp add: store_results_None getById_outputs_update)

lemma finish_run_outputs_update:
  "finish_run env req result sf cap (db\<lparr> outputs := X \<rparr>) =
     (fst (finish_run env req result sf cap db),
      (snd (finish_run env req result sf cap db))\<lparr> outputs := X \<rparr>)"
proof -
  define db3 where "db3 = AutomationModel_updateStatus (req_id req) ''completed''
                            (completed_iso env) db"
  show ?thesis
  proof (cases "AutomationModel_getById (req_id req) db3")
    case None
    then show ?thesis
      unfolding finish_run_def Let_def updateStatus_outputs_update getById_outputs_update
        db3_def [symmetric]
      by (simp add: failure_path_outputs_update)
  next
    case (Some a)
    show ?thesis
    proof (cases "LogModel_create (completed_log env req a (cap_logs cap) result) db3")
      case (Inl e)
      with Some show ?thesis
        unfolding finish_run_def Let_def updateStatus_outputs_update getById_outputs_update
          LogModel_create_outputs_update db3_def [symmetric]
        by (simp add: failure_path_outputs_update)
    next
      case (Inr d)
      with Some show ?thesis
        unfolding finish_run_def Let_def updateStatus_outputs_update getById_outputs_update
          LogModel_create_outputs_update db3_def [symmetric]
        by simp
    qed
  qed
qed

lemma finish_run_same_core:
  assumes "core db' = core db"
  shows "fst (finish_run env req result sf cap db') = fst (finish_run env req result sf cap db) \<and>
         core (snd (finish_run env req result sf cap db')) =
           core (snd (finish_run env req result sf cap db))"
proof -
  have "db' = db\<lparr> outputs := outputs db' \<rparr>"
    using assms by (rule same_core_outputs_update)
  then have "finish_run env req result sf cap db' =
               (fst (finish_run env req result sf cap db),
                (snd (finish_run env req result sf cap db))\<lparr> outputs := outputs db' \<rparr>)"
    using finish_run_outputs_update [where db = db and X = "outputs db'"] by simp
  then show ?thesis
    by (simp add: core_outputs_update)
qed

text \<open>
  The outcome of a run (the response with its terminal event, the automations table
  with the final status, the logs table) is the same on every outputs table: whether
  the artifact write succeeds or is refused changes nothing but the outputs table.
\<close>

lemma artifact_write_never_changes_outcome:
  "fst (run_automation env req behaviour (db\<lparr> outputs := X \<rparr>)) =
     fst (run_automation env req behaviour db) \<and>
   core (snd (run_automation env req behaviour (db\<lparr> outputs := X \<rparr>))) =
     core (snd (run_automation env req behaviour db))"
proof (cases "req_script req = []")
  case True
  then show ?thesis by (simp add: run_automation_def core_def)
next
  case script: False
  show ?thesis
  proof (cases behaviour)
    case (NoParse m)
    with script show ?thesis by (simp add: run_automation_def core_def)
  next
    case (Runs calls settled)
    define db1 where "db1 = AutomationModel_updateStatus (req_id req) ''running'' (running_iso env) db"
    define cap where "cap = foldl logCapture
                \<lparr> cap_logs = [], cap_screenshotFilename = None,
                  cap_sent = [StatusEvent ''running'' ''Starting automation...''] \<rparr> calls"
    have run: "run_automation env req (Runs calls settled) d =
               (case settled of
                  Pending \<Rightarrow> (Stream (StatusEvent ''running'' ''Starting automation...'' #
                                         map LogEvent calls) LeftOpen,
                               AutomationModel_updateStatus (req_id req) ''running''
                                 (running_iso env) d)
                | Rejects m \<Rightarrow> failure_path env req (Thrown m) cap
                               (AutomationModel_updateStatus (req_id req) ''running''
                                  (running_iso env) d)
                | Resolves result \<Rightarrow> success_path env req result cap
                               (AutomationModel_updateStatus (req_id req) ''running''
                                  (running_iso env) d))" for d
      unfolding cap_def by (rule run_automation_Runs [OF script])
    show ?thesis
    proof (cases settled)
      case Pending
      then show ?thesis
        unfolding Runs run by (simp add: updateStatus_outputs_update core_outputs_update)
    next
      case (Rejects m)
      then show ?thesis
        unfolding Runs run
        by (simp add: updateStatus_outputs_update failure_path_outputs_update core_outputs_update)
    next
      case (Resolves result)
      have r: "run_automation env req behaviour d =
                 success_path env req result cap
                   (AutomationModel_updateStatus (req_id req) ''running'' (running_iso env) d)" for d
        using run [of d] by (simp add: Runs Resolves)
      show ?thesis
      proof (cases "result_screenshot result (cap_screenshotFilename cap)")
        case (Inl err)
        then show ?thesis
          unfolding r success_path_def updateStatus_outputs_update db1_def [symmetric]
          by (simp add: failure_path_outputs_update core_outputs_update)
      next
        case (Inr sf)
        show ?thesis
        proof (cases "store_results env req result db1")
          case None
          then have "store_results env req result (db1\<lparr> outputs := X \<rparr>) = None"
            by (simp add: store_results_None_outputs_update)
          with None Inr show ?thesis
            unfolding r success_path_def updateStatus_outputs_update db1_def [symmetric]
            by (simp add: core_outputs_update)
        next
          case (Some db2)
          then have "store_results env req result (db1\<lparr> outputs := X \<rparr>) \<noteq> None"
            by (simp add: store_results_None_outputs_update)
          then obtain db2' where s': "store_results env req result (db1\<lparr> outputs := X \<rparr>) = Some db2'"
            by blast
          have "core db2' = core db2"
            using store_results_core [OF s'] store_results_core [OF Some]
            by (simp add: core_outputs_update)
          from finish_run_same_core [OF this] Some s' Inr
          show ?thesis
            unfolding r success_path_def updateStatus_outputs_update db1_def [symmetric]
            by simp
        qed
      qed
    qed
  qed
qed


section \<open>Persistence during a run\<close>

text \<open>A logs table that already holds the id the clock gives the next log entry.\<close>

definition clash_db :: database where
  "clash_db =
     \<lparr> automations = [demo_automation],
       logs = [\<lparr> log_id = ''1719050400100'', log_automationId = ''1'',
                 log_automationName = ''Wikipedia Apples Search'', log_status = ''completed'',
                 log_output = ''earlier run'', log_timestamp = ''2024-06-22T10:00:00.100Z'' \<rparr>],
       outputs = [] \<rparr>"











text \<open>
  C3. The claim that a persistence error never changes the outcome holds for the
  artifact (\<open>artifact_write_never_changes_outcome\<close>) and fails on the handler for
  the log entry: \<open>LogModel.create\<close> is called inside the \<open>try\<close> with no guard of
  its own. The script resolves; on a logs table that has no clashing id the
  terminal event has \<open>success = true\<close> and the status ends \<open>completed\<close>; on a logs
  table that holds the id taken from the clock the insert throws, the \<open>catch\<close> marks
  the run failed, and the terminal event has \<open>success = false\<close>.
\<close>

theorem log_write_failure_flips_outcome:
  "map_option event_success
     (terminal (fst (run_automation demo_env demo_request
                       (Runs [] (Resolves (JObj [(''ok'', JBool True)]))) demo_db))) = Some True \<and>
   status_of ''1'' (snd (run_automation demo_env demo_request
                       (Runs [] (Resolves (JObj [(''ok'', JBool True)]))) demo_db)) =
     Some ''completed'' \<and>
   terminal (fst (run_automation demo_env demo_request
                       (Runs [] (Resolves (JObj [(''ok'', JBool True)]))) clash_db)) =
     Some (CompleteFail (JStr ''UNIQUE constraint failed: logs.id'')
             ''Error: UNIQUE constraint failed: logs.id'') \<and>
   status_of ''1'' (snd (run_automation demo_env demo_request
                       (Runs [] (Resolves (JObj [(''ok'', JBool True)]))) clash_db)) =
     Some ''failed''"
  by code_simp


section \<open>The screenshot filename of the terminal event\<close>

text \<open>
  C7, as amended. In every run that ends with a successful terminal event, the
  \<open>screenshotFilename\<close> of that event is the filename scraped from the log lines
  whenever one was scraped (the last matching line); the last segment of the result's
  \<open>screenshotPath\<close> is reported only when no log line gave a filename.
\<close>

theorem complete_screenshotFilename_prefers_log_hint:
  assumes "terminal (fst (run_automation env req (Runs calls (Resolves result)) db)) = Some c"
      and "event_success c"
  shows "complete_screenshotFilename c =
           (case scraped_hint calls of
              Some f \<Rightarrow> Some f
            | None \<Rightarrow>
                (case getprop result ''screenshotPath'' of
                   JStr p \<Rightarrow> last_segment p
                 | _ \<Rightarrow> None))"
proof -
  from run_success_cases [OF assms] obtain sf where
    rs: "result_screenshot result (scraped_hint calls) = Inr sf" and
    c: "c = CompleteOk (run_output env calls result) result sf (executionTime env)"
    by blast
  have "sf = (case scraped_hint calls of
                Some f \<Rightarrow> Some f
              | None \<Rightarrow>
                  (case getprop result ''screenshotPath'' of
                     JStr p \<Rightarrow> last_segment p
                   | _ \<Rightarrow> None))"
  proof (cases "scraped_hint calls")
    case (Some f)
    with rs have "sf = Some f"
      by (simp add: result_screenshot_def)
    with Some show ?thesis by simp
  next
    case None
    show ?thesis
    proof (cases "truthy (getprop result ''screenshotPath'')")
      case True
      then have "truthy result"
        by (cases result) simp_all
      with rs None True show ?thesis
        by (simp add: result_screenshot_def split: jsval.splits)
    next
      case False
      with rs None have "sf = None"
        by (simp add: result_screenshot_def)
      moreover have "(case getprop result ''screenshotPath'' of
                        JStr p \<Rightarrow> last_segment p | _ \<Rightarrow> None) = None"
        using False
        by (cases "getprop result ''screenshotPath''") (simp_all add: last_segment_def)
      ultimately show ?thesis
        using None by simp
    qed
  qed
  with c show ?thesis by simp
qed

definition path_result :: jsval where
  "path_result = JObj [(''screenshotPath'', JStr ''/data/outputs/b.png'')]"

theorem complete_screenshotFilename_prefers_log_hint_witness:
  "terminal (fst (run_automation demo_env demo_request
                    (Runs [''saved''] (Resolves path_result)) demo_db)) =
     Some (CompleteOk (run_output demo_env [''saved''] path_result) path_result
             (Some ''b.png'') ''0.10'') \<and>
   event_success (CompleteOk (run_output demo_env [''saved''] path_result) path_result
             (Some ''b.png'') ''0.10'') \<and>
   complete_screenshotFilename
     (CompleteOk (run_output demo_env [''saved''] path_result) path_result
        (Some ''b.png'') ''0.10'') =
     (case scraped_hint [''saved''] of
        Some f \<Rightarrow> Some f
      | None \<Rightarrow>
          (case getprop path_result ''screenshotPath'' of
             JStr p \<Rightarrow> last_segment p
           | _ \<Rightarrow> None))"
proof -
  have h1: "terminal (fst (run_automation demo_env demo_request
                    (Runs [''saved''] (Resolves path_result)) demo_db)) =
     Some (CompleteOk (run_output demo_env [''saved''] path_result) path_result
             (Some ''b.png'') ''0.10'')"
    by code_simp
  have h2: "event_success (CompleteOk (run_output demo_env [''saved''] path_result) path_result
             (Some ''b.png'') ''0.10'')"
    by simp
  show ?thesis
    apply (rule conjI)
     apply (rule h1)
    apply (rule conjI)
     apply (rule h2)
    apply (rule complete_screenshotFilename_prefers_log_hint [OF h1 h2])
    done
qed

text \<open>
  The claim as stated fails where both sources are present: a log line gives
  \<open>a.png\<close>, the result's \<open>screenshotPath\<close> ends in \<open>b.png\<close>, and the terminal
  event reports \<open>a.png\<close>.
\<close>

theorem log_hint_overrides_result_path:
  "scraped_hint [''Taking screenshot and saving to: /tmp/shots/a.png''] = Some ''a.png'' \<and>
   getprop path_result ''screenshotPath'' = JStr ''/data/outputs/b.png'' \<and>
   last_segment ''/data/outputs/b.png'' = Some ''b.png'' \<and>
   map_option complete_screenshotFilename
     (terminal (fst (run_automation demo_env demo_request
                       (Runs [''Taking screenshot and saving to: /tmp/shots/a.png'']
                          (Resolves path_result)) demo_db))) =
     Some (Some ''a.png'')"
  by code_simp


section \<open>Client stream consumer (utils/api.ts, runAutomationById)\<close>






record client_result =
  cr_success :: bool
  cr_output :: jsval
  cr_result :: jsval






datatype settled = Resolved client_result | Rejected string












section \<open>The completion promise and the timeout\<close>









section \<open>Client output store (stores/outputStore.ts)\<close>

text \<open>
  An \<open>OutputFile\<close> has the fields of an outputs row. The grouped view is a
  JavaScript object from type to files: an association list in key insertion order.
\<close>

type_synonym grouped = "(string \<times> output_row list) list"

record grouped_cache =
  cache_data :: "grouped option"
  cache_timestamp :: int

record store =
  outputFiles :: "output_row list"
  priorityOutputFiles :: "output_row list"
  isLoadingOutputs :: bool
  isPriorityLoaded :: bool
  hasMoreOutputs :: bool
  currentPage :: int
  totalOutputCount :: int
  outputsByTypeCache :: grouped_cache
  parsedDataCache :: "(string \<times> jsval) list"
  parseQueue :: "output_row list"

definition PAGE_SIZE :: nat where
  "PAGE_SIZE = 30"

definition PRIORITY_FILES_COUNT :: nat where
  "PRIORITY_FILES_COUNT = 5"

definition CACHE_TTL :: int where
  "CACHE_TTL = 3000"

text \<open>\<open>grouped[type].push(file)\<close> with \<open>type = file.type || 'other'\<close>.\<close>

fun push_group :: "string \<Rightarrow> output_row \<Rightarrow> grouped \<Rightarrow> grouped" where
  "push_group k f [] = [(k, [f])]"
| "push_group k f ((k', fs) # g) =
     (if k' = k then (k', fs @ [f]) # g else (k', fs) # push_group k f g)"

definition group_add :: "grouped \<Rightarrow> output_row \<Rightarrow> grouped" where
  "group_add g f = push_group (if output_type f = [] then ''other'' else output_type f) f g"

text \<open>
  \<open>group.sort((a, b) => new Date(b.timestamp).getTime() - new Date(a.timestamp).getTime())\<close>:
  newest first, stable; \<open>date_ms\<close> is the runtime's date parser.
\<close>

fun insert_newest :: "(string \<Rightarrow> int) \<Rightarrow> output_row \<Rightarrow> output_row list \<Rightarrow> output_row list" where
  "insert_newest date_ms x [] = [x]"
| "insert_newest date_ms x (y # ys) =
     (if date_ms (output_timestamp y) \<le> date_ms (output_timestamp x) then x # y # ys
      else y # insert_newest date_ms x ys)"

definition sort_newest :: "(string \<Rightarrow> int) \<Rightarrow> output_row list \<Rightarrow> output_row list" where
  "sort_newest date_ms fs = foldr (insert_newest date_ms) fs []"

text \<open>The grouping the derived store computes from the two lists.\<close>

definition compute_grouped ::
  "(string \<Rightarrow> int) \<Rightarrow> output_row list \<Rightarrow> output_row list \<Rightarrow> grouped" where
  "compute_grouped date_ms files priority =
     (let g1 = foldl group_add [] priority;
          remainingFiles =
            take 50 (filter (\<lambda>f. output_id f \<notin> set (map output_id priority)) files);
          g2 = foldl group_add g1 remainingFiles
      in map (\<lambda>kv. (fst kv, sort_newest date_ms (snd kv))) g2)"

text \<open>
  One evaluation of the \<open>outputsByType\<close> derived callback at clock reading \<open>now\<close>:
  the cached grouping while the cache is set and younger than \<open>CACHE_TTL\<close>,
  otherwise a fresh grouping, which is cached.
\<close>

definition outputsByType :: "(string \<Rightarrow> int) \<Rightarrow> int \<Rightarrow> store \<Rightarrow> grouped \<times> store" where
  "outputsByType date_ms now st =
     (case cache_data (outputsByTypeCache st) of
        Some data \<Rightarrow>
          if now - cache_timestamp (outputsByTypeCache st) < CACHE_TTL then (data, st)
          else (let g = compute_grouped date_ms (outputFiles st) (priorityOutputFiles st)
                in (g, st\<lparr> outputsByTypeCache := \<lparr> cache_data = Some g, cache_timestamp = now \<rparr> \<rparr>))
      | None \<Rightarrow>
          (let g = compute_grouped date_ms (outputFiles st) (priorityOutputFiles st)
           in (g, st\<lparr> outputsByTypeCache := \<lparr> cache_data = Some g, cache_timestamp = now \<rparr> \<rparr>)))"

definition resetOutputPagination :: "store \<Rightarrow> store" where
  "resetOutputPagination st =
     st\<lparr> outputFiles := [],
         priorityOutputFiles := [],
         isPriorityLoaded := False,
         currentPage := 1,
         hasMoreOutputs := True,
         outputsByTypeCache := \<lparr> cache_data = None, cache_timestamp = 0 \<rparr>,
         parseQueue := [] \<rparr>"

text \<open>An element of a listing, read as an \<open>OutputFile\<close>.\<close>

definition str_field :: "jsval \<Rightarrow> string \<Rightarrow> string" where
  "str_field v k = (case getprop v k of JStr s \<Rightarrow> s | _ \<Rightarrow> [])"

definition file_of :: "jsval \<Rightarrow> output_row" where
  "file_of v =
     \<lparr> output_id = str_field v ''id'',
       output_automationId = str_field v ''automationId'',
       output_name = str_field v ''name'',
       output_type = str_field v ''type'',
       output_data = str_field v ''data'',
       output_timestamp = str_field v ''timestamp'' \<rparr>"

fun array_items :: "jsval \<Rightarrow> jsval list" where
  "array_items (JArr xs) = xs"
| "array_items v = []"

text \<open>
  The three listing shapes: a wrapper object with \<open>success\<close> and an array \<open>files\<close>,
  a bare array, or else the answer of the direct endpoint when that is an array.
\<close>

definition listing_files :: "jsval \<Rightarrow> jsval \<Rightarrow> output_row list" where
  "listing_files response directResponse =
     (if truthy (getprop response ''success'') \<and> isArray (getprop response ''files'')
      then map file_of (array_items (getprop response ''files''))
      else if isArray response then map file_of (array_items response)
      else if isArray directResponse then map file_of (array_items directResponse)
      else [])"

definition int_field :: "jsval \<Rightarrow> string \<Rightarrow> int" where
  "int_field v k = (case getprop v k of JNum n \<Rightarrow> n | _ \<Rightarrow> 0)"

text \<open>
  \<open>loadMoreOutputs\<close>, given what the two \<open>fetchAPI\<close> calls resolve to. Nothing is
  loaded while a load is running or when there are no more results. The new files are
  appended to \<open>outputFiles\<close>; the grouped view's cache is not touched.
\<close>

definition loadMoreOutputs :: "jsval \<Rightarrow> jsval \<Rightarrow> store \<Rightarrow> store" where
  "loadMoreOutputs response directResponse st =
     (if isLoadingOutputs st \<or> \<not> hasMoreOutputs st then st
      else (let newOutputs = listing_files response directResponse;
                st1 = (if length newOutputs < PAGE_SIZE
                       then st\<lparr> hasMoreOutputs := False \<rparr>
                       else st\<lparr> currentPage := currentPage st + 1 \<rparr>);
                st2 = (if truthy (getprop response ''total'')
                       then st1\<lparr> totalOutputCount := int_field response ''total'' \<rparr>
                       else st1);
                st3 = (if newOutputs \<noteq> []
                       then st2\<lparr> outputFiles := outputFiles st2 @
                               filter (\<lambda>f. output_id f \<notin> set (map output_id (priorityOutputFiles st2)))
                                 newOutputs \<rparr>
                       else st2)
            in st3\<lparr> isLoadingOutputs := False \<rparr>))"

text \<open>
  The response check at the end of \<open>deleteOutputFile\<close>: a success flag or a data id,
  or else any value whose \<open>typeof\<close> is \<open>object\<close> ("Assume success if we got a
  response object").
\<close>

definition response_counts_as_deleted :: "jsval \<Rightarrow> bool" where
  "response_counts_as_deleted response =
     (if truthy response \<and>
         (getprop response ''success'' = JBool True \<or>
          (truthy (getprop response ''data'') \<and>
           truthy (getprop (getprop response ''data'') ''id'')))
      then True
      else typeof_object response)"

text \<open>
  The stores of svelte/store (svelte ^4.2, a dependency of the package, not among the
  sources): \<open>writable(...)\<close> returns an object with \<open>set\<close>, \<open>update\<close> and
  \<open>subscribe\<close>; \<open>derived(...)\<close> returns a readable store, with \<open>subscribe\<close> only.
  Calling \<open>update\<close> on a store that has no such method throws a \<open>TypeError\<close>.
\<close>

datatype svelte_store = Writable | Derived

definition call_update :: "svelte_store \<Rightarrow> string \<Rightarrow> error + unit" where
  "call_update s name =
     (case s of
        Writable \<Rightarrow> Inr ()
      | Derived \<Rightarrow> Inl (TypeError (name @ ''.update is not a function'')))"

text \<open>
  \<open>deleteOutputFile(id)\<close>, given what \<open>fetchAPI\<close> resolves to. The optimistic
  removal and the invalidation of the grouped view's cache come first. Inside the
  \<open>try\<close>, after the request, the two writable stores are updated with their own
  contents, then \<open>outputsByType.update(...)\<close> is called on the store made by
  \<open>derived(...)\<close> at line 41, and only then the response is checked; the \<open>catch\<close>
  logs the error and returns \<open>false\<close>.
\<close>

definition deleteOutputFile :: "string \<Rightarrow> jsval \<Rightarrow> store \<Rightarrow> bool \<times> store" where
  "deleteOutputFile i response st =
     (let st1 = st\<lparr> outputFiles := filter (\<lambda>f. output_id f \<noteq> i) (outputFiles st),
                     priorityOutputFiles := filter (\<lambda>f. output_id f \<noteq> i) (priorityOutputFiles st),
                     parsedDataCache := filter (\<lambda>kv. fst kv \<noteq> i) (parsedDataCache st),
                     outputsByTypeCache := \<lparr> cache_data = None, cache_timestamp = 0 \<rparr> \<rparr>;
          attempt =
            (case call_update Writable ''outputFiles'' of
               Inl err \<Rightarrow> Inl err
             | Inr u \<Rightarrow>
                 (case call_update Writable ''priorityOutputFiles'' of
                    Inl err \<Rightarrow> Inl err
                  | Inr u \<Rightarrow>
                      (case call_update Derived ''outputsByType'' of
                         Inl err \<Rightarrow> Inl err
                       | Inr u \<Rightarrow> Inr (response_counts_as_deleted response))))
      in case attempt of
           Inl err \<Rightarrow> (False, st1)
         | Inr ok \<Rightarrow> (ok, st1))"


section \<open>fetchAPI (utils/api.ts)\<close>

text \<open>
  What the network does for one request: the response is \<open>ok\<close> and its body parses
  to a value, or something throws inside the inner \<open>try\<close> (an HTTP error status, the
  10 s abort, a transport error, a body that is not JSON), with the error's message.
\<close>

datatype net_outcome = NetOk jsval | NetThrows string

definition CACHE_EXPIRY :: int where
  "CACHE_EXPIRY = 30000"

text \<open>The value the outer \<open>catch\<close> resolves with.\<close>

definition fetch_fallback :: "string \<Rightarrow> string \<Rightarrow> jsval" where
  "fetch_fallback endpoint msg =
     (if endpoint = ''/logs'' \<or> endpoint = ''/logs-direct'' then JArr []
      else if endpoint = ''/outputs'' \<or> endpoint = ''/outputs-direct'' then JArr []
      else if endpoint = ''/settings''
      then JObj [(''notificationsEnabled'', JBool True), (''darkTheme'', JBool True),
                 (''keepOutputDays'', JNum 7)]
      else JObj [(''success'', JBool False),
                 (''error'', JStr (if msg = [] then ''Unknown API error'' else msg)),
                 (''isErrorResponse'', JBool True)])"

text \<open>
  \<open>fetchAPI(endpoint, options)\<close>: \<open>is_get\<close> is \<open>!options.method || options.method
  === 'GET'\<close>; the cache maps an endpoint to its data and the time it was stored. The
  function has no path that rejects.
\<close>

definition fetchAPI ::
  "string \<Rightarrow> bool \<Rightarrow> int \<Rightarrow> net_outcome \<Rightarrow> (string \<rightharpoonup> jsval \<times> int)
     \<Rightarrow> jsval \<times> (string \<rightharpoonup> jsval \<times> int)" where
  "fetchAPI endpoint is_get now net apiCache =
     (case (if is_get then apiCache endpoint else None) of
        Some cached \<Rightarrow>
          if now - snd cached < CACHE_EXPIRY then (fst cached, apiCache)
          else (case net of
                  NetOk data \<Rightarrow> (data, if is_get then apiCache(endpoint \<mapsto> (data, now)) else apiCache)
                | NetThrows msg \<Rightarrow> (fetch_fallback endpoint msg, apiCache))
      | None \<Rightarrow>
          (case net of
             NetOk data \<Rightarrow> (data, if is_get then apiCache(endpoint \<mapsto> (data, now)) else apiCache)
           | NetThrows msg \<Rightarrow> (fetch_fallback endpoint msg, apiCache)))"


section \<open>The grouped view's cache\<close>

lemma outputsByType_invalidated:
  assumes "cache_data (outputsByTypeCache st) = None"
  shows "fst (outputsByType date_ms now st) =
           compute_grouped date_ms (outputFiles st) (priorityOutputFiles st)"
  using assms by (simp add: outputsByType_def Let_def)

text \<open>After a reset, the next evaluation of the grouped view is computed from the reset lists.\<close>

lemma outputsByType_after_reset:
  "fst (outputsByType date_ms now (resetOutputPagination st)) =
     compute_grouped date_ms (outputFiles (resetOutputPagination st))
       (priorityOutputFiles (resetOutputPagination st))"
  by (rule outputsByType_invalidated) (simp add: resetOutputPagination_def)

text \<open>After a delete, the next evaluation is computed from the lists without the file.\<close>

lemma outputsByType_after_delete:
  "fst (outputsByType date_ms now (snd (deleteOutputFile i response st))) =
     compute_grouped date_ms (filter (\<lambda>f. output_id f \<noteq> i) (outputFiles st))
       (filter (\<lambda>f. output_id f \<noteq> i) (priorityOutputFiles st))"
proof -
  have "cache_data (outputsByTypeCache (snd (deleteOutputFile i response st))) = None"
    by (simp add: deleteOutputFile_def call_update_def Let_def)
  then show ?thesis
    by (simp add: outputsByType_invalidated) (simp add: deleteOutputFile_def call_update_def Let_def)
qed

text \<open>Pagination leaves the cache as it was.\<close>

lemma loadMoreOutputs_cache:
  "outputsByTypeCache (loadMoreOutputs response directResponse st) = outputsByTypeCache st"
  by (simp add: loadMoreOutputs_def Let_def)

definition empty_store :: store where
  "empty_store =
     \<lparr> outputFiles = [], priorityOutputFiles = [], isLoadingOutputs = False,
       isPriorityLoaded = True, hasMoreOutputs = True, currentPage = 1,
       totalOutputCount = 0,
       outputsByTypeCache = \<lparr> cache_data = None, cache_timestamp = 0 \<rparr>,
       parsedDataCache = [], parseQueue = [] \<rparr>"

definition one_file_listing :: jsval where
  "one_file_listing =
     JArr [JObj [(''id'', JStr ''1719050400100''), (''automationId'', JStr ''1''),
                 (''name'', JStr ''shot''), (''type'', JStr ''screenshot''),
                 (''data'', JStr ''{}''), (''timestamp'', JStr ''2024-06-22T10:00:00.100Z'')]]"

text \<open>
  C9. The claim that every change of the list invalidates the grouped view's cache
  fails for pagination. The grouped view is evaluated at 1000 ms on the empty store
  (and cached); \<open>loadMoreOutputs\<close> then appends one file; the evaluation at 2000 ms,
  inside the 3000 ms TTL, still returns the empty grouping computed before the change,
  not the grouping of the current list.
\<close>

theorem loadMoreOutputs_leaves_grouping_stale:
  "outputFiles (loadMoreOutputs one_file_listing JUndefined
      (snd (outputsByType (\<lambda>s. 0) 1000 empty_store))) = [file_of (hd (array_items one_file_listing))] \<and>
   fst (outputsByType (\<lambda>s. 0) 2000
      (loadMoreOutputs one_file_listing JUndefined
         (snd (outputsByType (\<lambda>s. 0) 1000 empty_store)))) = [] \<and>
   compute_grouped (\<lambda>s. 0)
      (outputFiles (loadMoreOutputs one_file_listing JUndefined
         (snd (outputsByType (\<lambda>s. 0) 1000 empty_store))))
      (priorityOutputFiles (loadMoreOutputs one_file_listing JUndefined
         (snd (outputsByType (\<lambda>s. 0) 1000 empty_store)))) =
     [(''screenshot'', [file_of (hd (array_items one_file_listing))])]"
proof -
  define st1 where "st1 = snd (outputsByType (\<lambda>s. 0) 1000 empty_store)"
  have s1: "st1 = empty_store\<lparr> outputsByTypeCache := \<lparr> cache_data = Some [], cache_timestamp = 1000 \<rparr> \<rparr>"
    by (simp add: st1_def outputsByType_def empty_store_def compute_grouped_def Let_def)
  define f where "f = file_of (hd (array_items one_file_listing))"
  have t: "output_type f = ''screenshot''" and i: "output_id f = ''1719050400100''"
    by (simp_all add: f_def file_of_def str_field_def one_file_listing_def)
  have l: "listing_files one_file_listing JUndefined = [f]"
    by (simp add: listing_files_def one_file_listing_def f_def)
  define st2 where "st2 = loadMoreOutputs one_file_listing JUndefined st1"
  have s2: "st2 = st1\<lparr> hasMoreOutputs := False, outputFiles := [f] \<rparr>"
    unfolding st2_def loadMoreOutputs_def l
    by (simp add: s1 empty_store_def PAGE_SIZE_def Let_def one_file_listing_def)
  have c: "outputsByTypeCache st2 = \<lparr> cache_data = Some [], cache_timestamp = 1000 \<rparr>"
    by (simp add: s2 s1)
  have a: "outputFiles st2 = [f]" and p: "priorityOutputFiles st2 = []"
    by (simp_all add: s2 s1 empty_store_def)
  have g: "fst (outputsByType (\<lambda>s. 0) 2000 st2) = []"
    by (simp add: outputsByType_def c CACHE_TTL_def)
  have k: "compute_grouped (\<lambda>s. 0) (outputFiles st2) (priorityOutputFiles st2) =
             [(''screenshot'', [f])]"
    unfolding a p
    by (simp add: compute_grouped_def group_add_def t sort_newest_def Let_def)
  show ?thesis
    using a g k unfolding st2_def st1_def f_def by simp
qed


section \<open>Deleting an artifact from the client\<close>

lemma fetch_fallback_delete_endpoint:
  "fetch_fallback (''/outputs/'' @ i) msg =
     JObj [(''success'', JBool False),
           (''error'', JStr (if msg = [] then ''Unknown API error'' else msg)),
           (''isErrorResponse'', JBool True)]"
  by (simp add: fetch_fallback_def)

lemma fetch_fallback_object: "typeof_object (fetch_fallback endpoint msg)"
  by (simp add: fetch_fallback_def)

lemma fetchAPI_not_get:
  "fetchAPI endpoint False now net apiCache =
     (case net of NetOk data \<Rightarrow> (data, apiCache)
      | NetThrows msg \<Rightarrow> (fetch_fallback endpoint msg, apiCache))"
  by (simp add: fetchAPI_def split: net_outcome.splits)

lemma response_object_counts: "typeof_object response \<Longrightarrow> response_counts_as_deleted response"
  by (simp add: response_counts_as_deleted_def)

text \<open>
  The optimistic removal and the invalidated cache are kept whatever the request yields.
\<close>

lemma deleteOutputFile_store:
  "outputFiles (snd (deleteOutputFile i response st)) =
     filter (\<lambda>f. output_id f \<noteq> i) (outputFiles st) \<and>
   priorityOutputFiles (snd (deleteOutputFile i response st)) =
     filter (\<lambda>f. output_id f \<noteq> i) (priorityOutputFiles st) \<and>
   cache_data (outputsByTypeCache (snd (deleteOutputFile i response st))) = None"
  by (simp add: deleteOutputFile_def call_update_def Let_def)

text \<open>
  The call \<open>outputsByType.update(...)\<close> throws before the response is looked at, so the
  function resolves to \<open>false\<close> for every response.
\<close>

lemma deleteOutputFile_false:
  "fst (deleteOutputFile i response st) = False"
  by (simp add: deleteOutputFile_def call_update_def Let_def)

text \<open>
  \<open>fetchAPI\<close> has no path that rejects. A failed \<open>DELETE /outputs/<id>\<close> resolves
  with the error object; the fallback values are an empty array for /logs, /logs-direct,
  /outputs and /outputs-direct, the default settings for /settings, and the error object
  otherwise; every one of them is an object or an array, which the response check accepts.
\<close>

lemma fetchAPI_failure_fallbacks:
  "fst (fetchAPI (''/outputs/'' @ i) False now (NetThrows msg) apiCache) =
     JObj [(''success'', JBool False),
           (''error'', JStr (if msg = [] then ''Unknown API error'' else msg)),
           (''isErrorResponse'', JBool True)] \<and>
   typeof_object (fst (fetchAPI endpoint False now (NetThrows msg) apiCache)) \<and>
   response_counts_as_deleted (fst (fetchAPI endpoint False now (NetThrows msg) apiCache)) \<and>
   fetch_fallback ''/settings'' msg =
     JObj [(''notificationsEnabled'', JBool True), (''darkTheme'', JBool True),
           (''keepOutputDays'', JNum 7)] \<and>
   fetch_fallback ''/logs'' msg = JArr [] \<and> fetch_fallback ''/logs-direct'' msg = JArr [] \<and>
   fetch_fallback ''/outputs'' msg = JArr [] \<and> fetch_fallback ''/outputs-direct'' msg = JArr []"
proof -
  have f: "fst (fetchAPI e False now (NetThrows msg) apiCache) = fetch_fallback e msg" for e
    by (simp add: fetchAPI_not_get)
  have t: "fetch_fallback ''/settings'' msg =
     JObj [(''notificationsEnabled'', JBool True), (''darkTheme'', JBool True),
           (''keepOutputDays'', JNum 7)] \<and>
   fetch_fallback ''/logs'' msg = JArr [] \<and> fetch_fallback ''/logs-direct'' msg = JArr [] \<and>
   fetch_fallback ''/outputs'' msg = JArr [] \<and> fetch_fallback ''/outputs-direct'' msg = JArr []"
    by (simp add: fetch_fallback_def)
  have r: "response_counts_as_deleted (fetch_fallback endpoint msg)"
    using fetch_fallback_object by (rule response_object_counts)
  show ?thesis
    unfolding f using t r
    by (simp only: fetch_fallback_delete_endpoint fetch_fallback_object simp_thms)
qed

text \<open>A failed request to /settings resolves with the default settings, not an error object.\<close>

lemma fetchAPI_settings_fallback:
  "fst (fetchAPI ''/settings'' True 0 (NetThrows ''Failed to fetch'') Map.empty) =
     JObj [(''notificationsEnabled'', JBool True), (''darkTheme'', JBool True),
           (''keepOutputDays'', JNum 7)]"
  by (simp add: fetchAPI_def fetch_fallback_def)

definition two_file_store :: store where
  "two_file_store =
     empty_store\<lparr> outputFiles := [file_of (hd (array_items one_file_listing))],
                  priorityOutputFiles := [file_of (hd (array_items one_file_listing))] \<rparr>"

text \<open>The answer of \<open>DELETE /api/outputs/:id\<close> for a row that was deleted.\<close>

definition deleted_response :: jsval where
  "deleted_response =
     JObj [(''success'', JBool True), (''data'', JObj [(''id'', JStr ''1719050400100'')])]"

text \<open>
  C10. The claim that \<open>deleteOutputFile\<close> resolves to true whenever the request yields
  a response object fails on the code, even for the answer of a successful delete: the
  server answers \<open>{success: true, data: {id}}\<close>, which the response check would
  accept, the file is removed from both lists, and the function resolves to false.
\<close>

theorem deleteOutputFile_resolves_false_after_successful_delete:
  "response_counts_as_deleted deleted_response \<and>
   fst (deleteOutputFile ''1719050400100'' deleted_response two_file_store) = False \<and>
   outputFiles (snd (deleteOutputFile ''1719050400100'' deleted_response two_file_store)) = [] \<and>
   priorityOutputFiles
     (snd (deleteOutputFile ''1719050400100'' deleted_response two_file_store)) = []"
  by (simp add: deleteOutputFile_def call_update_def Let_def response_counts_as_deleted_def
      deleted_response_def two_file_store_def empty_store_def file_of_def str_field_def
      one_file_listing_def)

end
